theory Spec2Isabelle
  imports Complex_Main "HOL-Library.Option_ord" "HOL-Library.Log_Nat"
begin

section \<open>NPS visitor analytics: the aggregate query layer of backend/main.py\<close>

text \<open>
  The query handlers of \<^verbatim>\<open>backend/main.py\<close> are embedded as pure functions of the store
  (the three tables of \<^verbatim>\<open>backend/models.py\<close>) and of the request parameters. A raised
  \<^verbatim>\<open>HTTPException\<close> is the left summand of the result.

  Conventions of the embedding:
  \<^item> a table is the list of its rows in scan order; a nullable column is an \<open>option\<close>;
  \<^item> record fields carry the column name behind a table prefix (\<open>park_\<close>, \<open>region_\<close>,
    \<open>mv_\<close>) and response models a short prefix of their own, since field names are global;
  \<^item> SQL \<^verbatim>\<open>ORDER BY\<close> is a stable sort of the scan order (SQL leaves ties unspecified);
  \<^item> a Python float is the real number it denotes, and every float operation rounds its
    exact result to the nearest binary64 number, ties to even; Python \<^verbatim>\<open>round\<close> rounds
    half to even;
  \<^item> strings are byte strings (UTF-8); \<^verbatim>\<open>upper\<close> on identifiers and the lower-casing of
    SQL \<^verbatim>\<open>ILIKE\<close> act on ASCII letters; Python's \<^verbatim>\<open>str.lower\<close> in the name search of the
    top-N handler is a parameter \<open>str_lower\<close> of that handler, so that what is proved of
    it holds for every case mapping.
\<close>

subsection \<open>Python and SQL primitives\<close>

datatype error = HTTPException nat string | TypeError | ZeroDivisionError

definition upper_char :: "char \<Rightarrow> char" where
  "upper_char c =
     (case map_of (zip ''abcdefghijklmnopqrstuvwxyz'' ''ABCDEFGHIJKLMNOPQRSTUVWXYZ'') c of
        Some u \<Rightarrow> u | None \<Rightarrow> c)"

definition lower_char :: "char \<Rightarrow> char" where
  "lower_char c =
     (case map_of (zip ''ABCDEFGHIJKLMNOPQRSTUVWXYZ'' ''abcdefghijklmnopqrstuvwxyz'') c of
        Some l \<Rightarrow> l | None \<Rightarrow> c)"

definition upper :: "string \<Rightarrow> string" where
  "upper s = map upper_char s"

definition lower :: "string \<Rightarrow> string" where
  "lower s = map lower_char s"

text \<open>Python \<^verbatim>\<open>q in s\<close> on strings: \<open>q\<close> occurs in \<open>s\<close> as a contiguous run.\<close>

fun starts_with :: "string \<Rightarrow> string \<Rightarrow> bool" where
  "starts_with s [] = True"
| "starts_with [] (q # qs) = False"
| "starts_with (c # cs) (q # qs) = (c = q \<and> starts_with cs qs)"

fun py_in :: "string \<Rightarrow> string \<Rightarrow> bool" where
  "py_in q [] = (q = [])"
| "py_in q (c # cs) = (starts_with (c # cs) q \<or> py_in q cs)"

text \<open>SQL \<^verbatim>\<open>LIKE\<close>: \<^verbatim>\<open>%\<close> matches any run of characters, \<^verbatim>\<open>_\<close> any one character.\<close>

fun like :: "string \<Rightarrow> string \<Rightarrow> bool" where
  "like [] s = (s = [])"
| "like (p # ps) [] = (p = CHR ''%'' \<and> like ps [])"
| "like (p # ps) (c # cs) =
     (if p = CHR ''%'' then like ps (c # cs) \<or> like (p # ps) cs
      else (p = CHR ''_'' \<or> p = c) \<and> like ps cs)"

text \<open>\<^verbatim>\<open>column.ilike(pattern)\<close> is rendered as \<^verbatim>\<open>lower(column) LIKE lower(pattern)\<close>.\<close>

definition ilike :: "string \<Rightarrow> string \<Rightarrow> bool" where
  "ilike s pat = like (lower pat) (lower s)"

text \<open>The pattern \<^verbatim>\<open>f"%{query}%"\<close>.\<close>

definition contains_pattern :: "string \<Rightarrow> string" where
  "contains_pattern query = ''%'' @ query @ ''%''"

text \<open>\<^verbatim>\<open>int(x or 0)\<close> for a nullable integer.\<close>

definition int_or_0 :: "int option \<Rightarrow> int" where
  "int_or_0 x = (case x of None \<Rightarrow> 0 | Some v \<Rightarrow> v)"

text \<open>Python 3 \<^verbatim>\<open>round\<close> of a float to an integer: nearest, ties to the even neighbour.\<close>

definition py_round :: "real \<Rightarrow> int" where
  "py_round x =
     (let f = \<lfloor>x\<rfloor>; d = x - of_int f in
      if d < 1/2 then f else if 1/2 < d then f + 1 else if even f then f else f + 1)"

text \<open>
  Python floats are IEEE 754 binary64 numbers. \<open>expo x\<close> is the binary exponent of a
  non-zero \<open>x\<close>, that is \<open>\<lfloor>log 2 \<bar>x\<bar>\<rfloor>\<close>, and \<open>binary64 x\<close> is \<open>x\<close> rounded to 53 significant
  bits (to a multiple of \<open>2 powi (- 1074)\<close> in the subnormal range), nearest, ties to even.
  The overflow threshold is not modelled: it is beyond every value that 64-bit integer
  columns can produce here.
\<close>

definition expo :: "real \<Rightarrow> int" where
  "expo x = (if 1 \<le> \<bar>x\<bar> then bitlen \<lfloor>\<bar>x\<bar>\<rfloor> - 1 else - bitlen (\<lceil>1 / \<bar>x\<bar>\<rceil> - 1))"

definition binary64 :: "real \<Rightarrow> real" where
  "binary64 x =
     (if x = 0 then 0
      else let u = 2 powi (max (expo x) (- 1022) - 52)
           in real_of_int (py_round (x / u)) * u)"

text \<open>
  \<^verbatim>\<open>float(i)\<close> and the float operations \<^verbatim>\<open>x * y\<close>, \<^verbatim>\<open>x - y\<close>, \<^verbatim>\<open>x / y\<close> (for \<open>y \<noteq> 0\<close>) and
  \<^verbatim>\<open>math.sqrt(x)\<close>; \<^verbatim>\<open>i / j\<close> on two integers is the correctly rounded quotient.
\<close>

definition float_of_int :: "int \<Rightarrow> real" where
  "float_of_int i = binary64 (real_of_int i)"

definition float_mul :: "real \<Rightarrow> real \<Rightarrow> real" where
  "float_mul x y = binary64 (x * y)"

definition float_sub :: "real \<Rightarrow> real \<Rightarrow> real" where
  "float_sub x y = binary64 (x - y)"

definition float_div :: "real \<Rightarrow> real \<Rightarrow> real" where
  "float_div x y = binary64 (x / y)"

definition float_sqrt :: "real \<Rightarrow> real" where
  "float_sqrt x = binary64 (sqrt x)"

definition int_truediv :: "int \<Rightarrow> int \<Rightarrow> real" where
  "int_truediv i j = binary64 (real_of_int i / real_of_int j)"

text \<open>Python \<^verbatim>\<open>xs[:n]\<close>: a negative \<open>n\<close> counts from the end.\<close>

definition py_slice_to :: "int \<Rightarrow> 'a list \<Rightarrow> 'a list" where
  "py_slice_to n xs =
     (if 0 \<le> n then take (nat n) xs else take (length xs - nat (- n)) xs)"

text \<open>SQL aggregates skip NULL; \<^verbatim>\<open>SUM\<close> and \<^verbatim>\<open>AVG\<close> of no value are NULL.\<close>

definition non_null :: "'a option list \<Rightarrow> 'a list" where
  "non_null xs = concat (map (\<lambda>x. case x of None \<Rightarrow> [] | Some v \<Rightarrow> [v]) xs)"

definition sql_sum :: "int option list \<Rightarrow> int option" where
  "sql_sum xs = (if non_null xs = [] then None else Some (sum_list (non_null xs)))"

definition sql_avg :: "int option list \<Rightarrow> real option" where
  "sql_avg xs =
     (if non_null xs = [] then None
      else Some (real_of_int (sum_list (non_null xs)) / real (length (non_null xs))))"

definition sql_count :: "'a option list \<Rightarrow> nat" where
  "sql_count xs = length (non_null xs)"

text \<open>\<^verbatim>\<open>GROUP BY\<close>: one group per distinct key, holding the rows of that key in scan order.\<close>

definition group_by :: "('r \<Rightarrow> 'k) \<Rightarrow> 'r list \<Rightarrow> ('k \<times> 'r list) list" where
  "group_by key rows = map (\<lambda>k. (k, filter (\<lambda>r. key r = k) rows)) (remdups (map key rows))"

text \<open>
  \<^verbatim>\<open>ORDER BY e\<close> and \<^verbatim>\<open>ORDER BY e DESC\<close>, and Python's \<^verbatim>\<open>sort(key=..., reverse=True)\<close>, which
  reverses, sorts stably and reverses again. In SQLite NULL sorts below every value.
\<close>

definition order_by :: "('r \<Rightarrow> 'k::linorder) \<Rightarrow> 'r list \<Rightarrow> 'r list" where
  "order_by k rows = sort_key k rows"

definition order_by_desc :: "('r \<Rightarrow> 'k::linorder) \<Rightarrow> 'r list \<Rightarrow> 'r list" where
  "order_by_desc k rows = rev (sort_key k (rev rows))"

text \<open>\<^verbatim>\<open>LIMIT n\<close>: in SQLite a negative limit is no limit.\<close>

definition sql_limit :: "int \<Rightarrow> 'r list \<Rightarrow> 'r list" where
  "sql_limit n rows = (if n < 0 then rows else take (nat n) rows)"

text \<open>A loop that may raise in its body: the first error ends it.\<close>

fun for_each :: "('a \<Rightarrow> error + 'b) \<Rightarrow> 'a list \<Rightarrow> error + 'b list" where
  "for_each f [] = Inr []"
| "for_each f (x # xs) =
     (case f x of
        Inl e \<Rightarrow> Inl e
      | Inr y \<Rightarrow> (case for_each f xs of Inl e \<Rightarrow> Inl e | Inr ys \<Rightarrow> Inr (y # ys)))"

subsection \<open>The tables (backend/models.py)\<close>

record Region =
  region_id :: string
  region_name :: string
  region_description :: "string option"

record Park =
  park_code :: string
  park_name :: string
  park_state :: string
  park_designation :: string
  park_region_id :: "string option"
  park_latitude :: "real option"
  park_longitude :: "real option"
  park_description :: "string option"
  park_website :: "string option"
  park_boundary :: "string option"

record MonthlyVisit =
  mv_park_code :: string
  mv_year :: int
  mv_month :: int
  mv_recreation_visits :: "int option"
  mv_non_recreation_visits :: "int option"
  mv_total_visits :: "int option"
  mv_concessioner_lodging :: "int option"
  mv_concessioner_camping :: "int option"
  mv_tent_campers :: "int option"
  mv_rv_campers :: "int option"
  mv_backcountry :: "int option"
  mv_nonrecreation_overnight_stays :: "int option"
  mv_miscellaneous_overnight_stays :: "int option"

record store =
  region :: "Region list"
  park :: "Park list"
  monthly_visit :: "MonthlyVisit list"

text \<open>
  The constraints of the schema: the primary keys are unique, and a park's region reference,
  when present, names a stored region.
\<close>

definition mv_key :: "MonthlyVisit \<Rightarrow> string \<times> int \<times> int" where
  "mv_key m = (mv_park_code m, mv_year m, mv_month m)"

definition wf_store :: "store \<Rightarrow> bool" where
  "wf_store db =
     (distinct (map region_id (region db)) \<and>
      distinct (map park_code (park db)) \<and>
      distinct (map mv_key (monthly_visit db)) \<and>
      list_all (\<lambda>p. case park_region_id p of
                       None \<Rightarrow> True
                     | Some r \<Rightarrow> r \<in> set (map region_id (region db))) (park db))"

subsection \<open>Q1: monthly visits of a park and year, with threshold flag\<close>

record MonthlyThresholdOut =
  mt_month :: int
  mt_total_visits :: int
  mt_above_threshold :: bool

definition monthly_stmt :: "store \<Rightarrow> string \<Rightarrow> int \<Rightarrow> MonthlyVisit list" where
  "monthly_stmt db pc year =
     order_by mv_month (filter (\<lambda>m. mv_park_code m = pc \<and> mv_year m = year) (monthly_visit db))"

definition monthly_out :: "int \<Rightarrow> MonthlyVisit \<Rightarrow> MonthlyThresholdOut" where
  "monthly_out threshold m =
     (let total_int = int_or_0 (mv_total_visits m)
      in \<lparr>mt_month = mv_month m,
          mt_total_visits = total_int,
          mt_above_threshold = (total_int \<ge> threshold)\<rparr>)"

definition park_monthly_visits_with_threshold ::
  "store \<Rightarrow> string \<Rightarrow> int \<Rightarrow> int \<Rightarrow> error + MonthlyThresholdOut list" where
  "park_monthly_visits_with_threshold db park_code0 year threshold =
     (let pc = upper park_code0;
          rows = monthly_stmt db pc year
      in if rows = [] then Inl (HTTPException 404 ''No visits for that park/year'')
         else Inr (map (monthly_out threshold) rows))"

subsection \<open>Joins and optional filters shared by the handlers\<close>

text \<open>\<^verbatim>\<open>Park JOIN MonthlyVisit ON MonthlyVisit.park_code == Park.park_code\<close>.\<close>

definition park_join_visit :: "store \<Rightarrow> (Park \<times> MonthlyVisit) list" where
  "park_join_visit db =
     [(p, m). p \<leftarrow> park db, m \<leftarrow> monthly_visit db, mv_park_code m = park_code p]"

text \<open>\<^verbatim>\<open>MonthlyVisit JOIN Park ON Park.park_code == MonthlyVisit.park_code\<close>.\<close>

definition visit_join_park :: "store \<Rightarrow> (MonthlyVisit \<times> Park) list" where
  "visit_join_park db =
     [(m, p). m \<leftarrow> monthly_visit db, p \<leftarrow> park db, park_code p = mv_park_code m]"

text \<open>
  \<^verbatim>\<open>... JOIN Region ON Region.region_id == Park.region_id, isouter=True\<close>: a park without
  a matching region is kept once, with a NULL region.
\<close>

definition outer_join_region :: "store \<Rightarrow> Park \<Rightarrow> Region option list" where
  "outer_join_region db p =
     (case [r. r \<leftarrow> region db, Some (region_id r) = park_region_id p] of
        [] \<Rightarrow> [None]
      | rs \<Rightarrow> map Some rs)"

definition park_visit_region :: "store \<Rightarrow> (Park \<times> MonthlyVisit \<times> Region option) list" where
  "park_visit_region db =
     [(p, m, r). (p, m) \<leftarrow> park_join_visit db, r \<leftarrow> outer_join_region db p]"

text \<open>
  \<^verbatim>\<open>if region_id is not None: stmt = stmt.where(Region.region_id == region_id)\<close>;
  a comparison with a NULL region is not true.
\<close>

definition region_filter :: "string option \<Rightarrow> Region option \<Rightarrow> bool" where
  "region_filter rid r =
     (case rid of
        None \<Rightarrow> True
      | Some x \<Rightarrow> (case r of None \<Rightarrow> False | Some reg \<Rightarrow> region_id reg = x))"

text \<open>
  \<^verbatim>\<open>if park_code is not None: ... Park.park_code == park_code\<close>
  \<^verbatim>\<open>elif query is not None: ... Park.park_name.ilike(f"%{query}%")\<close>
\<close>

definition park_filter :: "string option \<Rightarrow> string option \<Rightarrow> Park \<Rightarrow> bool" where
  "park_filter pc query p =
     (case pc of
        Some c \<Rightarrow> park_code p = c
      | None \<Rightarrow> (case query of
                   Some q \<Rightarrow> ilike (park_name p) (contains_pattern q)
                 | None \<Rightarrow> True))"

text \<open>\<^verbatim>\<open>if region_id is not None: ... Park.region_id == region_id\<close>.\<close>

definition park_region_filter :: "string option \<Rightarrow> Park \<Rightarrow> bool" where
  "park_region_filter rid p =
     (case rid of None \<Rightarrow> True | Some x \<Rightarrow> park_region_id p = Some x)"

text \<open>A SQL comparison of a nullable aggregate with a value: NULL is not true.\<close>

definition sql_ge :: "('a::linorder) option \<Rightarrow> 'a \<Rightarrow> bool" where
  "sql_ge x v = (case x of None \<Rightarrow> False | Some a \<Rightarrow> a \<ge> v)"

definition sql_gt :: "('a::linorder) option \<Rightarrow> 'a \<Rightarrow> bool" where
  "sql_gt x v = (case x of None \<Rightarrow> False | Some a \<Rightarrow> a > v)"

subsection \<open>Aggregation over groups\<close>

text \<open>\<^verbatim>\<open>SELECT key, SUM(col) ... GROUP BY key\<close> and the same with \<^verbatim>\<open>AVG\<close>.\<close>

definition sum_groups :: "('r \<Rightarrow> 'k) \<Rightarrow> ('r \<Rightarrow> int option) \<Rightarrow> 'r list \<Rightarrow> ('k \<times> int option) list" where
  "sum_groups key col rows = map (\<lambda>(k, g). (k, sql_sum (map col g))) (group_by key rows)"

definition avg_groups :: "('r \<Rightarrow> 'k) \<Rightarrow> ('r \<Rightarrow> int option) \<Rightarrow> 'r list \<Rightarrow> ('k \<times> real option) list" where
  "avg_groups key col rows = map (\<lambda>(k, g). (k, sql_avg (map col g))) (group_by key rows)"

text \<open>The column \<^verbatim>\<open>MonthlyVisit.total_visits\<close> of a joined row.\<close>

definition total_of :: "Park \<times> MonthlyVisit \<times> Region option \<Rightarrow> int option" where
  "total_of = (\<lambda>(p, m, r). mv_total_visits m)"

subsection \<open>Q2: annual visits by park\<close>

record AnnualParkVisitsOut =
  apv_park_code :: string
  apv_park_name :: string
  apv_region_id :: "string option"
  apv_region_name :: "string option"
  apv_year :: int
  apv_annual_total_visits :: int
  apv_state :: "string option"
  apv_latitude :: "real option"
  apv_longitude :: "real option"

type_synonym annual_key =
  "string \<times> string \<times> string \<times> real option \<times> real option \<times> string option \<times> string option \<times> int"

definition annual_key :: "Park \<times> MonthlyVisit \<times> Region option \<Rightarrow> annual_key" where
  "annual_key = (\<lambda>(p, m, r). (park_code p, park_name p, park_state p,
      park_latitude p, park_longitude p,
      map_option region_id r, map_option region_name r, mv_year m))"

text \<open>\<^verbatim>\<open>if min_total is not None: stmt = stmt.having(SUM(total_visits) >= min_total)\<close>.\<close>

definition having_min_total :: "int option \<Rightarrow> ('k \<times> int option) list \<Rightarrow> ('k \<times> int option) list" where
  "having_min_total min_total rows =
     (case min_total of
        None \<Rightarrow> rows
      | Some mt \<Rightarrow> filter (\<lambda>(k, annual_total). sql_ge annual_total mt) rows)"

text \<open>The statement of Q2, with the identifiers already in upper case.\<close>

definition annual_visits_stmt ::
  "store \<Rightarrow> int \<Rightarrow> string option \<Rightarrow> string option \<Rightarrow> string option \<Rightarrow> int option \<Rightarrow> int
     \<Rightarrow> (annual_key \<times> int option) list" where
  "annual_visits_stmt db year rid pc query min_total limit =
     sql_limit limit (order_by_desc snd (having_min_total min_total
       (sum_groups annual_key total_of
          (filter (\<lambda>(p, m, r). mv_year m = year \<and> region_filter rid r \<and> park_filter pc query p)
             (park_visit_region db)))))"

definition annual_visits_out :: "annual_key \<times> int option \<Rightarrow> AnnualParkVisitsOut" where
  "annual_visits_out =
     (\<lambda>((code, name, state, latitude, longitude, reg_id, reg_name, y), annual_total).
        \<lparr>apv_park_code = code, apv_park_name = name,
         apv_region_id = reg_id, apv_region_name = reg_name,
         apv_year = y, apv_annual_total_visits = int_or_0 annual_total,
         apv_state = Some state,
         apv_latitude = latitude, apv_longitude = longitude\<rparr>)"

definition annual_visits_by_park ::
  "store \<Rightarrow> int \<Rightarrow> string option \<Rightarrow> string option \<Rightarrow> string option \<Rightarrow> int option \<Rightarrow> int
     \<Rightarrow> error + AnnualParkVisitsOut list" where
  "annual_visits_by_park db year region_id0 park_code0 query min_total limit =
     (let rid = map_option upper region_id0;
          pc = map_option upper park_code0;
          rows = annual_visits_stmt db year rid pc query min_total limit
      in Inr (map annual_visits_out rows))"

subsection \<open>Q3 and Q4: average monthly visits\<close>

record AvgMonthlyVisitsOut =
  amv_park_code :: string
  amv_park_name :: string
  amv_region_id :: "string option"
  amv_region_name :: "string option"
  amv_start_year :: int
  amv_end_year :: int
  amv_avg_monthly_visits :: int

text \<open>\<^verbatim>\<open>int(round(avg_monthly or 0))\<close>.\<close>

definition round_or_0 :: "real option \<Rightarrow> int" where
  "round_or_0 x = (case x of None \<Rightarrow> 0 | Some v \<Rightarrow> py_round v)"

type_synonym park_region_key = "string \<times> string \<times> string option \<times> string option"

definition park_region_key :: "Park \<times> MonthlyVisit \<times> Region option \<Rightarrow> park_region_key" where
  "park_region_key = (\<lambda>(p, m, r). (park_code p, park_name p,
      map_option region_id r, map_option region_name r))"

definition average_monthly_stmt ::
  "store \<Rightarrow> int \<Rightarrow> int \<Rightarrow> string option \<Rightarrow> string option \<Rightarrow> string option \<Rightarrow> int
     \<Rightarrow> (park_region_key \<times> real option) list" where
  "average_monthly_stmt db start_year end_year rid pc query limit =
     sql_limit limit (order_by_desc snd
       (avg_groups park_region_key total_of
          (filter (\<lambda>(p, m, r). (start_year \<le> mv_year m \<and> mv_year m \<le> end_year) \<and>
                      region_filter rid r \<and> park_filter pc query p)
             (park_visit_region db))))"

definition avg_monthly_out :: "int \<Rightarrow> int \<Rightarrow> park_region_key \<times> real option \<Rightarrow> AvgMonthlyVisitsOut" where
  "avg_monthly_out start_year end_year =
     (\<lambda>((code, name, reg_id, reg_name), avg_monthly).
        \<lparr>amv_park_code = code, amv_park_name = name,
         amv_region_id = reg_id, amv_region_name = reg_name,
         amv_start_year = start_year, amv_end_year = end_year,
         amv_avg_monthly_visits = round_or_0 avg_monthly\<rparr>)"

definition average_monthly_visits_by_park ::
  "store \<Rightarrow> int \<Rightarrow> int \<Rightarrow> string option \<Rightarrow> string option \<Rightarrow> string option \<Rightarrow> int
     \<Rightarrow> error + AvgMonthlyVisitsOut list" where
  "average_monthly_visits_by_park db start_year end_year region_id0 park_code0 query limit =
     (if start_year > end_year then Inl (HTTPException 400 ''start_year must be <= end_year'')
      else
        let rid = map_option upper region_id0;
            pc = map_option upper park_code0;
            rows = average_monthly_stmt db start_year end_year rid pc query limit
        in Inr (map (avg_monthly_out start_year end_year) rows))"

definition peak_season_stmt ::
  "store \<Rightarrow> int \<Rightarrow> int \<Rightarrow> string option \<Rightarrow> (park_region_key \<times> real option) list" where
  "peak_season_stmt db year threshold rid =
     order_by_desc snd
       (filter (\<lambda>(k, avg_monthly). sql_ge avg_monthly (real_of_int threshold))
          (avg_groups park_region_key total_of
             (filter (\<lambda>(p, m, r). (mv_year m = year \<and> mv_month m \<in> set [6, 7, 8]) \<and>
                         region_filter rid r)
                (park_visit_region db))))"

definition peak_season_above_threshold ::
  "store \<Rightarrow> int \<Rightarrow> int \<Rightarrow> string option \<Rightarrow> error + AvgMonthlyVisitsOut list" where
  "peak_season_above_threshold db year threshold region_id0 =
     (let rid = map_option upper region_id0;
          rows = peak_season_stmt db year threshold rid
      in Inr (map (avg_monthly_out year year) rows))"

subsection \<open>Q5: parks above the system or region average\<close>

record ParkAboveAverageOut =
  paa_park_code :: string
  paa_park_name :: string
  paa_region_id :: "string option"
  paa_region_name :: "string option"
  paa_year :: int
  paa_annual_total_visits :: int
  paa_system_average_visits :: int
  paa_difference_from_average :: int
  paa_percent_above_average :: int

text \<open>Python \<^verbatim>\<open>sum\<close> over the scalars of the first query: adding \<^verbatim>\<open>None\<close> raises.\<close>

fun py_sum :: "int option list \<Rightarrow> error + int" where
  "py_sum [] = Inr 0"
| "py_sum (None # xs) = Inl TypeError"
| "py_sum (Some v # xs) = (case py_sum xs of Inl e \<Rightarrow> Inl e | Inr t \<Rightarrow> Inr (v + t))"

text \<open>The first query: the annual total of every park of the scope.\<close>

definition annual_totals :: "store \<Rightarrow> int \<Rightarrow> string option \<Rightarrow> int option list" where
  "annual_totals db year rid =
     map snd
       (sum_groups (\<lambda>(m, p). mv_park_code m) (\<lambda>(m, p). mv_total_visits m)
          (filter (\<lambda>(m, p). mv_year m = year \<and> park_region_filter rid p) (visit_join_park db)))"

text \<open>
  \<^verbatim>\<open>int(round(((annual_total_int - overall_avg) / overall_avg * 100))) if overall_avg > 0 else 0\<close>
\<close>

definition pct_above :: "int \<Rightarrow> int \<Rightarrow> int" where
  "pct_above annual_total_int overall_avg =
     (if overall_avg > 0
      then py_round (float_mul (int_truediv (annual_total_int - overall_avg) overall_avg) 100)
      else 0)"

type_synonym park_region_year_key = "string \<times> string \<times> string option \<times> string option \<times> int"

definition park_region_year_key :: "Park \<times> MonthlyVisit \<times> Region option \<Rightarrow> park_region_year_key" where
  "park_region_year_key = (\<lambda>(p, m, r). (park_code p, park_name p,
      map_option region_id r, map_option region_name r, mv_year m))"

text \<open>The second query: the parks whose annual total exceeds \<open>overall_avg\<close>.\<close>

definition above_average_stmt ::
  "store \<Rightarrow> int \<Rightarrow> string option \<Rightarrow> string option \<Rightarrow> string option \<Rightarrow> int
     \<Rightarrow> (park_region_year_key \<times> int option) list" where
  "above_average_stmt db year rid pc query overall_avg =
     order_by_desc snd
       (filter (\<lambda>(k, annual_total). sql_gt annual_total overall_avg)
          (sum_groups park_region_year_key total_of
             (filter (\<lambda>(p, m, r). mv_year m = year \<and> region_filter rid r \<and> park_filter pc query p)
                (park_visit_region db))))"

definition above_average_out :: "int \<Rightarrow> park_region_year_key \<times> int option \<Rightarrow> ParkAboveAverageOut" where
  "above_average_out overall_avg =
     (\<lambda>((code, name, reg_id, reg_name, y), annual_total).
        let annual_total_int = int_or_0 annual_total
        in \<lparr>paa_park_code = code, paa_park_name = name,
            paa_region_id = reg_id, paa_region_name = reg_name,
            paa_year = y, paa_annual_total_visits = annual_total_int,
            paa_system_average_visits = overall_avg,
            paa_difference_from_average = annual_total_int - overall_avg,
            paa_percent_above_average = pct_above annual_total_int overall_avg\<rparr>)"

definition parks_above_system_average ::
  "store \<Rightarrow> int \<Rightarrow> string option \<Rightarrow> string option \<Rightarrow> string option
     \<Rightarrow> error + ParkAboveAverageOut list" where
  "parks_above_system_average db year region_id0 park_code0 query =
     (let rid = map_option upper region_id0;
          totals = annual_totals db year rid
      in if totals = [] then Inl (HTTPException 404 ''No data for that year/filters'')
         else case py_sum totals of
           Inl e \<Rightarrow> Inl e
         | Inr t \<Rightarrow>
             let overall_avg = py_round (int_truediv t (int (length totals)));
                 rows = above_average_stmt db year rid (map_option upper park_code0) query
                          overall_avg
             in Inr (map (above_average_out overall_avg) rows))"

subsection \<open>Q6: top N parks of a year\<close>

record TopParkOut =
  tp_rank :: int
  tp_park_code :: string
  tp_park_name :: string
  tp_year :: int
  tp_annual_total_visits :: int

type_synonym ranked_row = "(string \<times> string \<times> int) \<times> int option"

text \<open>The ranking statement, without the name filter: every park of the scope.\<close>

definition all_ranked :: "store \<Rightarrow> int \<Rightarrow> string option \<Rightarrow> ranked_row list" where
  "all_ranked db year rid =
     order_by_desc snd
       (sum_groups (\<lambda>(p, m). (park_code p, park_name p, mv_year m)) (\<lambda>(p, m). mv_total_visits m)
          (filter (\<lambda>(p, m). mv_year m = year \<and> park_region_filter rid p) (park_join_visit db)))"

text \<open>
  \<^verbatim>\<open>next((idx + 1 for idx, row in enumerate(all_ranked) if row[0] == park_code), 0)\<close>
\<close>

fun rank_in :: "ranked_row list \<Rightarrow> int \<Rightarrow> string \<Rightarrow> int" where
  "rank_in [] idx code = 0"
| "rank_in (row # rows) idx code =
     (if fst (fst row) = code then idx + 1 else rank_in rows (idx + 1) code)"

text \<open>
  \<^verbatim>\<open>if query is not None: filtered_rows = [row for row in all_ranked
  if query.lower() in row[1].lower()]\<close>
\<close>

definition name_matches :: "(string \<Rightarrow> string) \<Rightarrow> string option \<Rightarrow> ranked_row \<Rightarrow> bool" where
  "name_matches str_lower query row =
     (case query of
        None \<Rightarrow> True
      | Some q \<Rightarrow> py_in (str_lower q) (str_lower (fst (snd (fst row)))))"

definition top_park_out :: "ranked_row list \<Rightarrow> ranked_row \<Rightarrow> TopParkOut" where
  "top_park_out ranked =
     (\<lambda>((code, name, y), annual_total).
        \<lparr>tp_rank = rank_in ranked 0 code,
         tp_park_code = code, tp_park_name = name, tp_year = y,
         tp_annual_total_visits = int_or_0 annual_total\<rparr>)"

definition top_parks_by_year ::
  "(string \<Rightarrow> string) \<Rightarrow> store \<Rightarrow> int \<Rightarrow> int \<Rightarrow> string option \<Rightarrow> string option
     \<Rightarrow> error + TopParkOut list" where
  "top_parks_by_year str_lower db year limit region_id0 query =
     (let rid = map_option upper region_id0;
          ranked = all_ranked db year rid;
          filtered_rows = filter (name_matches str_lower query) ranked;
          filtered_rows = py_slice_to limit filtered_rows
      in Inr (map (top_park_out ranked) filtered_rows))"

subsection \<open>Q7: annual visits by region, ranked\<close>

record RegionAnnualVisitsOut =
  rav_region_id :: string
  rav_region_name :: string
  rav_year :: int
  rav_annual_total_visits :: int
  rav_rank :: int

text \<open>
  \<^verbatim>\<open>Region JOIN Park ON Park.region_id == Region.region_id
  JOIN MonthlyVisit ON MonthlyVisit.park_code == Park.park_code\<close>.
\<close>

definition region_park_visit :: "store \<Rightarrow> (Region \<times> Park \<times> MonthlyVisit) list" where
  "region_park_visit db =
     [(r, p, m). r \<leftarrow> region db, p \<leftarrow> park db, park_region_id p = Some (region_id r),
        m \<leftarrow> monthly_visit db, mv_park_code m = park_code p]"

definition region_totals_stmt ::
  "store \<Rightarrow> int \<Rightarrow> string option \<Rightarrow> ((string \<times> string \<times> int) \<times> int option) list" where
  "region_totals_stmt db year rid =
     order_by_desc snd
       (sum_groups (\<lambda>(r, p, m). (region_id r, region_name r, mv_year m))
          (\<lambda>(r, p, m). mv_total_visits m)
          (filter (\<lambda>(r, p, m). mv_year m = year \<and> region_filter rid (Some r))
             (region_park_visit db)))"

definition region_out :: "nat \<times> (string \<times> string \<times> int) \<times> int option \<Rightarrow> RegionAnnualVisitsOut" where
  "region_out =
     (\<lambda>(idx, (reg_id, reg_name, y), annual_total).
        \<lparr>rav_region_id = reg_id, rav_region_name = reg_name, rav_year = y,
         rav_annual_total_visits = int_or_0 annual_total,
         rav_rank = int idx\<rparr>)"

definition annual_visits_by_region ::
  "store \<Rightarrow> int \<Rightarrow> string option \<Rightarrow> error + RegionAnnualVisitsOut list" where
  "annual_visits_by_region db year region_id0 =
     (let rid = map_option upper region_id0;
          rows = region_totals_stmt db year rid
      in Inr (map region_out (enumerate 1 rows)))"

subsection \<open>Q8: month-to-month change\<close>

record MonthToMonthChangeOut =
  mmc_month :: int
  mmc_total_visits :: int
  mmc_change_from_previous :: "int option"

text \<open>
  The self-join \<^verbatim>\<open>m1 LEFT OUTER JOIN m2 ON m1.park_code == m2.park_code AND
  m1.year == m2.year AND m1.month == m2.month + 1\<close>.
\<close>

definition previous_month_rows :: "store \<Rightarrow> MonthlyVisit \<Rightarrow> MonthlyVisit option list" where
  "previous_month_rows db m1 =
     (case [m2. m2 \<leftarrow> monthly_visit db,
              mv_park_code m1 = mv_park_code m2 \<and> mv_year m1 = mv_year m2 \<and>
              mv_month m1 = mv_month m2 + 1] of
        [] \<Rightarrow> [None]
      | ms \<Rightarrow> map Some ms)"

text \<open>
  \<^verbatim>\<open>m1.total_visits - func.coalesce(m2.total_visits, 0)\<close>: NULL only when
  \<^verbatim>\<open>m1.total_visits\<close> is NULL.
\<close>

definition change_expr :: "MonthlyVisit \<Rightarrow> MonthlyVisit option \<Rightarrow> int option" where
  "change_expr m1 m2 =
     (case mv_total_visits m1 of
        None \<Rightarrow> None
      | Some t \<Rightarrow> Some (t - (case m2 of None \<Rightarrow> 0 | Some m \<Rightarrow> int_or_0 (mv_total_visits m))))"

definition month_change_stmt ::
  "store \<Rightarrow> string \<Rightarrow> int \<Rightarrow> (MonthlyVisit \<times> MonthlyVisit option) list" where
  "month_change_stmt db pc year =
     order_by (\<lambda>(m1, m2). mv_month m1)
       [(m1, m2). m1 \<leftarrow> monthly_visit db, m2 \<leftarrow> previous_month_rows db m1,
          mv_park_code m1 = pc \<and> mv_year m1 = year]"

definition month_change_out :: "MonthlyVisit \<times> MonthlyVisit option \<Rightarrow> MonthToMonthChangeOut" where
  "month_change_out =
     (\<lambda>(m1, m2). \<lparr>mmc_month = mv_month m1,
                   mmc_total_visits = int_or_0 (mv_total_visits m1),
                   mmc_change_from_previous = change_expr m1 m2\<rparr>)"

definition month_to_month_change ::
  "store \<Rightarrow> string \<Rightarrow> int \<Rightarrow> error + MonthToMonthChangeOut list" where
  "month_to_month_change db park_code0 year =
     (let pc = upper park_code0;
          rows = month_change_stmt db pc year
      in if rows = [] then Inl (HTTPException 404 ''No visits for that park/year'')
         else Inr (map month_change_out rows))"

subsection \<open>Q9: growth of the parks of a region between two years\<close>

record GrowthOut =
  gr_park_code :: string
  gr_park_name :: string
  gr_region_id :: string
  gr_region_name :: string
  gr_start_year :: int
  gr_end_year :: int
  gr_start_total :: int
  gr_end_total :: int
  gr_growth_percent :: int

text \<open>
  The subquery \<^verbatim>\<open>annual_stmt\<close>: the annual totals per park and year of the region's parks,
  for the two boundary years.
\<close>

definition annual_stmt ::
  "store \<Rightarrow> string \<Rightarrow> int \<Rightarrow> int \<Rightarrow> ((string \<times> int) \<times> int option) list" where
  "annual_stmt db rid start_year end_year =
     sum_groups (\<lambda>(m, p). (mv_park_code m, mv_year m)) (\<lambda>(m, p). mv_total_visits m)
       (filter (\<lambda>(m, p). park_region_id p = Some rid \<and> mv_year m \<in> set [start_year, end_year])
          (visit_join_park db))"

text \<open>
  The outer statement: \<^verbatim>\<open>Park JOIN Region JOIN start_alias JOIN end_alias\<close>, all inner joins.
\<close>

definition growth_stmt ::
  "store \<Rightarrow> string \<Rightarrow> int \<Rightarrow> int \<Rightarrow> (Park \<times> Region \<times> int option \<times> int option) list" where
  "growth_stmt db rid start_year end_year =
     [(p, r, start_total, end_total).
        p \<leftarrow> park db, r \<leftarrow> region db, Some (region_id r) = park_region_id p,
        ((c1, y1), start_total) \<leftarrow> annual_stmt db rid start_year end_year,
        c1 = park_code p \<and> y1 = start_year,
        ((c2, y2), end_total) \<leftarrow> annual_stmt db rid start_year end_year,
        c2 = park_code p \<and> y2 = end_year,
        region_id r = rid]"

text \<open>
  \<^verbatim>\<open>if st == 0: growth_pct = 0\<close>
  \<^verbatim>\<open>else: growth_pct = int(round((et - st) * 100.0 / st))\<close>
\<close>

definition growth_pct :: "int \<Rightarrow> int \<Rightarrow> int" where
  "growth_pct st et =
     (if st = 0 then 0
      else py_round (float_div (float_mul (float_of_int (et - st)) 100) (float_of_int st)))"

definition growth_out :: "int \<Rightarrow> int \<Rightarrow> Park \<times> Region \<times> int option \<times> int option \<Rightarrow> GrowthOut" where
  "growth_out start_year end_year =
     (\<lambda>(p, r, start_total, end_total).
        let st = int_or_0 start_total; et = int_or_0 end_total
        in \<lparr>gr_park_code = park_code p, gr_park_name = park_name p,
            gr_region_id = region_id r, gr_region_name = region_name r,
            gr_start_year = start_year, gr_end_year = end_year,
            gr_start_total = st, gr_end_total = et,
            gr_growth_percent = growth_pct st et\<rparr>)"

definition growth_by_region_over_time ::
  "store \<Rightarrow> string \<Rightarrow> int \<Rightarrow> int \<Rightarrow> error + GrowthOut list" where
  "growth_by_region_over_time db region_id0 start_year end_year =
     (if start_year \<ge> end_year then Inl (HTTPException 400 ''start_year must be < end_year'')
      else
        let rid = upper region_id0;
            rows = growth_stmt db rid start_year end_year
        in if rows = [] then Inl (HTTPException 404 ''No data for that region/years'')
           else Inr (order_by_desc gr_growth_percent (map (growth_out start_year end_year) rows)))"

subsection \<open>Q10: variability of the monthly visits\<close>

record VariabilityOut =
  var_park_code :: string
  var_park_name :: string
  var_region_id :: "string option"
  var_region_name :: "string option"
  var_year :: int
  var_avg_monthly_visits :: int
  var_std_dev_monthly_visits :: int
  var_months_with_data :: int

text \<open>\<^verbatim>\<open>float(sum_v or 0.0)\<close>.\<close>

definition float_or_0 :: "int option \<Rightarrow> real" where
  "float_or_0 x = (case x of None \<Rightarrow> 0 | Some v \<Rightarrow> float_of_int v)"

text \<open>Division of a float by an integer: a zero divisor raises.\<close>

definition py_truediv :: "real \<Rightarrow> int \<Rightarrow> error + real" where
  "py_truediv a n =
     (if n = 0 then Inl ZeroDivisionError else Inr (float_div a (float_of_int n)))"

text \<open>\<^verbatim>\<open>SUM(total_visits * total_visits)\<close>: the product of a NULL is NULL.\<close>

definition squared :: "int option \<Rightarrow> int option" where
  "squared x = (case x of None \<Rightarrow> None | Some v \<Rightarrow> Some (v * v))"

type_synonym variability_row = "park_region_year_key \<times> nat \<times> int option \<times> int option"

text \<open>
  The statement: per park \<^verbatim>\<open>COUNT(month)\<close>, \<^verbatim>\<open>SUM(total_visits)\<close> and
  \<^verbatim>\<open>SUM(total_visits * total_visits)\<close>.
\<close>

definition variability_stmt ::
  "store \<Rightarrow> int \<Rightarrow> string option \<Rightarrow> string option \<Rightarrow> string option \<Rightarrow> variability_row list" where
  "variability_stmt db year rid pc query =
     map (\<lambda>(k, g). (k, sql_count (map (\<lambda>(p, m, r). Some (mv_month m)) g),
                        sql_sum (map total_of g),
                        sql_sum (map (squared \<circ> total_of) g)))
       (group_by park_region_year_key
          (filter (\<lambda>(p, m, r). mv_year m = year \<and> region_filter rid r \<and> park_filter pc query p)
             (park_visit_region db)))"

text \<open>The body of the loop over the aggregated rows.\<close>

definition variability_out :: "variability_row \<Rightarrow> error + VariabilityOut" where
  "variability_out =
     (\<lambda>((code, name, reg_id, reg_name, y), n_months, sum_v0, sum_v20).
        let n = int n_months;
            sum_v = float_or_0 sum_v0;
            sum_v2 = float_or_0 sum_v20
        in case py_truediv sum_v n of
             Inl e \<Rightarrow> Inl e
           | Inr mean \<Rightarrow>
               (case py_truediv sum_v2 n of
                  Inl e \<Rightarrow> Inl e
                | Inr mean_sq \<Rightarrow>
                    let variance = max (float_sub mean_sq (float_mul mean mean)) 0;
                        std_dev = float_sqrt variance
                    in Inr \<lparr>var_park_code = code, var_park_name = name,
                             var_region_id = reg_id, var_region_name = reg_name,
                             var_year = y,
                             var_avg_monthly_visits = py_round mean,
                             var_std_dev_monthly_visits = py_round std_dev,
                             var_months_with_data = n\<rparr>))"

definition park_visit_variability ::
  "store \<Rightarrow> int \<Rightarrow> string option \<Rightarrow> string option \<Rightarrow> string option \<Rightarrow> int
     \<Rightarrow> error + VariabilityOut list" where
  "park_visit_variability db year region_id0 park_code0 query limit =
     (let rid = map_option upper region_id0;
          pc = map_option upper park_code0;
          rows = variability_stmt db year rid pc query
      in if rows = [] then Inl (HTTPException 404 ''No data for that year/filters'')
         else case for_each variability_out rows of
           Inl e \<Rightarrow> Inl e
         | Inr results \<Rightarrow>
             let results = order_by_desc var_std_dev_monthly_visits results
             in Inr (if limit > 0 then py_slice_to limit results else results))"

subsection \<open>Q11: sum of one monthly metric per park\<close>

record MetricParkOut =
  mp_park_code :: string
  mp_park_name :: string
  mp_region_id :: "string option"
  mp_region_name :: "string option"
  mp_year :: int
  mp_metric_total :: int

definition allowed :: "string \<Rightarrow> (MonthlyVisit \<Rightarrow> int option) option" where
  "allowed = map_of
     [(''concessioner_lodging'', mv_concessioner_lodging),
      (''concessioner_camping'', mv_concessioner_camping),
      (''tent_campers'', mv_tent_campers),
      (''rv_campers'', mv_rv_campers),
      (''backcountry'', mv_backcountry),
      (''nonrecreation_overnight_stays'', mv_nonrecreation_overnight_stays),
      (''miscellaneous_overnight_stays'', mv_miscellaneous_overnight_stays)]"

definition metric_stmt ::
  "store \<Rightarrow> int \<Rightarrow> (MonthlyVisit \<Rightarrow> int option) \<Rightarrow> string option \<Rightarrow> int
     \<Rightarrow> (park_region_year_key \<times> int option) list" where
  "metric_stmt db year metric_col rid limit =
     sql_limit limit (order_by_desc snd
       (sum_groups park_region_year_key (\<lambda>(p, m, r). metric_col m)
          (filter (\<lambda>(p, m, r). mv_year m = year \<and> region_filter rid r) (park_visit_region db))))"

definition metric_out :: "park_region_year_key \<times> int option \<Rightarrow> MetricParkOut" where
  "metric_out =
     (\<lambda>((code, name, reg_id, reg_name, y), metric_total).
        \<lparr>mp_park_code = code, mp_park_name = name,
         mp_region_id = reg_id, mp_region_name = reg_name,
         mp_year = y, mp_metric_total = int_or_0 metric_total\<rparr>)"

definition parks_by_metric ::
  "store \<Rightarrow> int \<Rightarrow> string \<Rightarrow> string option \<Rightarrow> int \<Rightarrow> error + MetricParkOut list" where
  "parks_by_metric db year metric region_id0 limit =
     (case allowed metric of
        None \<Rightarrow> Inl (HTTPException 400 (''Unsupported metric: '' @ metric))
      | Some metric_col \<Rightarrow>
          let rid = map_option upper region_id0;
              rows = metric_stmt db year metric_col rid limit
          in Inr (map metric_out rows))"

subsection \<open>Park details\<close>

record ParkDetailOut =
  pd_park_code :: string
  pd_park_name :: string
  pd_state :: string
  pd_designation :: string
  pd_region_id :: "string option"
  pd_region_name :: "string option"
  pd_latitude :: "real option"
  pd_longitude :: "real option"
  pd_description :: "string option"
  pd_website :: "string option"
  pd_boundary :: "string option"

definition park_detail_stmt :: "store \<Rightarrow> string \<Rightarrow> (Park \<times> Region option) list" where
  "park_detail_stmt db pc =
     [(p, r). p \<leftarrow> park db, r \<leftarrow> outer_join_region db p, park_code p = pc]"

definition get_park_details :: "store \<Rightarrow> string \<Rightarrow> error + ParkDetailOut" where
  "get_park_details db park_code0 =
     (let pc = upper park_code0 in
      case park_detail_stmt db pc of
        [] \<Rightarrow> Inl (HTTPException 404 (''Park '' @ pc @ '' not found''))
      | (p, r) # rest \<Rightarrow>
          Inr \<lparr>pd_park_code = park_code p, pd_park_name = park_name p,
               pd_state = park_state p, pd_designation = park_designation p,
               pd_region_id = map_option region_id r,
               pd_region_name = map_option region_name r,
               pd_latitude = park_latitude p, pd_longitude = park_longitude p,
               pd_description = park_description p, pd_website = park_website p,
               pd_boundary = park_boundary p\<rparr>)"

subsection \<open>Reference formulations used in the statements\<close>

text \<open>
  Top-N as the specification words it: the records of the full ranking with their 1-based
  ranks, and the name filter on a record: the lower-cased query occurs in the lower-cased
  park name.
\<close>

definition ranked_records :: "ranked_row list \<Rightarrow> TopParkOut list" where
  "ranked_records ranked =
     map (\<lambda>(i, ((code, name, y), annual_total)).
            \<lparr>tp_rank = int i + 1, tp_park_code = code, tp_park_name = name, tp_year = y,
             tp_annual_total_visits = int_or_0 annual_total\<rparr>) (enumerate 0 ranked)"

definition record_matches :: "(string \<Rightarrow> string) \<Rightarrow> string option \<Rightarrow> TopParkOut \<Rightarrow> bool" where
  "record_matches str_lower query r =
     (case query of
        None \<Rightarrow> True
      | Some q \<Rightarrow> (\<exists>u v. str_lower (tp_park_name r) = u @ str_lower q @ v))"

text \<open>
  The monthly rows of a park in a year and the park's annual total as \<^verbatim>\<open>SUM\<close> gives it;
  the parks in the scope of a year and an optional region: those with a row in the year;
  the parks of a region with rows in both boundary years.
\<close>

definition park_rows :: "store \<Rightarrow> string \<Rightarrow> int \<Rightarrow> MonthlyVisit list" where
  "park_rows db code year =
     filter (\<lambda>m. mv_park_code m = code \<and> mv_year m = year) (monthly_visit db)"

definition annual_total_of :: "store \<Rightarrow> string \<Rightarrow> int \<Rightarrow> int option" where
  "annual_total_of db code year = sql_sum (map mv_total_visits (park_rows db code year))"

definition scope_parks :: "store \<Rightarrow> int \<Rightarrow> string option \<Rightarrow> Park list" where
  "scope_parks db year rid =
     filter (\<lambda>p. (case rid of None \<Rightarrow> True | Some x \<Rightarrow> park_region_id p = Some x) \<and>
                 park_rows db (park_code p) year \<noteq> [])
       (park db)"

definition growth_parks :: "store \<Rightarrow> string \<Rightarrow> int \<Rightarrow> int \<Rightarrow> Park list" where
  "growth_parks db rid start_year end_year =
     filter (\<lambda>p. park_region_id p = Some rid \<and>
                 park_rows db (park_code p) start_year \<noteq> [] \<and>
                 park_rows db (park_code p) end_year \<noteq> [])
       (park db)"

text \<open>
  The annual totals of the parks of a scope (a NULL total counts as 0), their unweighted
  mean in exact arithmetic, and the mean as \<^verbatim>\<open>int(round(sum(totals) / len(totals)))\<close>
  evaluates it.
\<close>

definition scope_totals :: "store \<Rightarrow> int \<Rightarrow> string option \<Rightarrow> int list" where
  "scope_totals db year rid =
     map (\<lambda>p. int_or_0 (annual_total_of db (park_code p) year)) (scope_parks db year rid)"

definition scope_mean :: "store \<Rightarrow> int \<Rightarrow> string option \<Rightarrow> real" where
  "scope_mean db year rid =
     real_of_int (sum_list (scope_totals db year rid)) / real (length (scope_totals db year rid))"

definition scope_average :: "store \<Rightarrow> int \<Rightarrow> string option \<Rightarrow> int" where
  "scope_average db year rid =
     py_round (int_truediv (sum_list (scope_totals db year rid))
                 (int (length (scope_totals db year rid))))"

text \<open>
  The monthly totals of a park in a year, in month order (a NULL total counts as 0, as
  in \<^verbatim>\<open>SUM\<close>). The population mean and standard deviation (divisor \<open>n\<close>) of a list of
  totals, once in exact arithmetic and once as the recipe
  \<^verbatim>\<open>mean = sum_v / n\<close>, \<^verbatim>\<open>variance = max(sum_v2 / n - mean * mean, 0)\<close>,
  \<^verbatim>\<open>std_dev = sqrt(variance)\<close> evaluates in Python floats.
\<close>

definition monthly_totals :: "store \<Rightarrow> string \<Rightarrow> int \<Rightarrow> int list" where
  "monthly_totals db code year =
     map (\<lambda>m. int_or_0 (mv_total_visits m)) (sort_key mv_month (park_rows db code year))"

definition population_mean :: "int list \<Rightarrow> real" where
  "population_mean vs = real_of_int (sum_list vs) / real (length vs)"

definition population_std_dev :: "int list \<Rightarrow> real" where
  "population_std_dev vs =
     sqrt (max (real_of_int (sum_list (map (\<lambda>v. v * v) vs)) / real (length vs)
                - population_mean vs * population_mean vs) 0)"

definition float_mean :: "int list \<Rightarrow> real" where
  "float_mean vs = float_div (float_of_int (sum_list vs)) (float_of_int (int (length vs)))"

definition float_std_dev :: "int list \<Rightarrow> real" where
  "float_std_dev vs =
     float_sqrt
       (max (float_sub
               (float_div (float_of_int (sum_list (map (\<lambda>v. v * v) vs)))
                  (float_of_int (int (length vs))))
               (float_mul (float_mean vs) (float_mean vs))) 0)"

subsection \<open>A sample store\<close>

text \<open>
  Rows as \<^verbatim>\<open>load_csv.py\<close> writes them: the total is recreation plus non-recreation
  visits and the overnight counters are filled with zero.
\<close>

definition visit_row :: "string \<Rightarrow> int \<Rightarrow> int \<Rightarrow> int \<Rightarrow> MonthlyVisit" where
  "visit_row code y mo n =
     \<lparr>mv_park_code = code, mv_year = y, mv_month = mo,
      mv_recreation_visits = Some n, mv_non_recreation_visits = Some 0,
      mv_total_visits = Some n,
      mv_concessioner_lodging = Some 0, mv_concessioner_camping = Some 0,
      mv_tent_campers = Some 0, mv_rv_campers = Some 0, mv_backcountry = Some 0,
      mv_nonrecreation_overnight_stays = Some 0,
      mv_miscellaneous_overnight_stays = Some 0\<rparr>"

definition park_row :: "string \<Rightarrow> string \<Rightarrow> string \<Rightarrow> string option \<Rightarrow> Park" where
  "park_row code name st reg =
     \<lparr>park_code = code, park_name = name, park_state = st,
      park_designation = ''National Park'', park_region_id = reg,
      park_latitude = None, park_longitude = None, park_description = None,
      park_website = None, park_boundary = None\<rparr>"

definition sample_regions :: "Region list" where
  "sample_regions =
     [\<lparr>region_id = ''IMR'', region_name = ''Intermountain'', region_description = None\<rparr>,
      \<lparr>region_id = ''PWR'', region_name = ''Pacific West'', region_description = None\<rparr>]"

definition sample_parks :: "Park list" where
  "sample_parks =
     [park_row ''GRCA'' ''Grand Canyon National Park'' ''AZ'' (Some ''IMR''),
      park_row ''ZION'' ''Zion National Park'' ''UT'' (Some ''IMR''),
      park_row ''YOSE'' ''Yosemite National Park'' ''CA'' (Some ''PWR'')]"

definition sample_visits :: "MonthlyVisit list" where
  "sample_visits =
     [visit_row ''GRCA'' 2019 7 1,
      visit_row ''ZION'' 2019 7 2,
      visit_row ''YOSE'' 2019 7 2,
      visit_row ''GRCA'' 2020 1 100,
      visit_row ''ZION'' 2020 1 200,
      visit_row ''YOSE'' 2020 1 300,
      visit_row ''ZION'' 2021 6 0,
      visit_row ''GRCA'' 2021 6 200,
      visit_row ''ZION'' 2022 6 500,
      visit_row ''GRCA'' 2022 6 300,
      visit_row ''GRCA'' 2023 3 300,
      visit_row ''GRCA'' 2023 1 100,
      visit_row ''GRCA'' 2023 2 200,
      visit_row ''ZION'' 2024 1 500,
      visit_row ''ZION'' 2024 2 650,
      visit_row ''ZION'' 2024 4 400]"

definition sample_store :: store where
  "sample_store = \<lparr>region = sample_regions, park = sample_parks, monthly_visit = sample_visits\<rparr>"

text \<open>A store with one park whose eleven monthly totals of a year lie close together.\<close>

definition steady_visits :: "MonthlyVisit list" where
  "steady_visits =
     [visit_row ''BLRI'' 2023 1 2970003,
      visit_row ''BLRI'' 2023 2 2970052,
      visit_row ''BLRI'' 2023 3 2970008,
      visit_row ''BLRI'' 2023 4 2969958,
      visit_row ''BLRI'' 2023 5 2969982,
      visit_row ''BLRI'' 2023 6 2970031,
      visit_row ''BLRI'' 2023 7 2969940,
      visit_row ''BLRI'' 2023 8 2969977,
      visit_row ''BLRI'' 2023 9 2969985,
      visit_row ''BLRI'' 2023 10 2970028,
      visit_row ''BLRI'' 2023 11 2969987]"

definition steady_store :: store where
  "steady_store =
     \<lparr>region = [], park = [park_row ''BLRI'' ''Blue Ridge Parkway'' ''NC'' None],
      monthly_visit = steady_visits\<rparr>"

section \<open>Properties\<close>

subsection \<open>Helper lemmas\<close>

lemma upper_char_idem: "upper_char (upper_char c) = upper_char c"
  by (simp add: upper_char_def)

lemma upper_idem: "upper (upper s) = upper s"
  by (simp add: upper_def upper_char_idem)

lemma filter_comprehension: "[x. x \<leftarrow> xs, P x] = filter P xs"
  by (induction xs) simp_all

lemma mv_month_inj_on_scope:
  "inj_on mv_key (set ms) \<Longrightarrow>
   inj_on mv_month {m \<in> set ms. mv_park_code m = pc \<and> mv_year m = y}"
  by (auto simp: inj_on_def mv_key_def)

lemma distinct_months_of_scope:
  assumes "distinct (map mv_key ms)"
  shows "distinct (map mv_month (filter (\<lambda>m. mv_park_code m = pc \<and> mv_year m = y) ms))"
proof -
  from assms have d: "distinct ms" and i: "inj_on mv_key (set ms)"
    by (simp_all add: distinct_map)
  have "inj_on mv_month (set (filter (\<lambda>m. mv_park_code m = pc \<and> mv_year m = y) ms))"
    using mv_month_inj_on_scope [OF i, of pc y] by simp
  with d show ?thesis by (simp add: distinct_map)
qed

subsection \<open>Lemmas about the SQL primitives\<close>

lemma map_option_upper_idem: "map_option upper (map_option upper x) = map_option upper x"
  by (cases x) (simp_all add: upper_idem)

lemma set_order_by_desc: "set (order_by_desc k xs) = set xs"
  by (simp add: order_by_desc_def)

lemma length_order_by_desc: "length (order_by_desc k xs) = length xs"
  by (simp add: order_by_desc_def)

lemma distinct_order_by_desc: "distinct (order_by_desc k xs) = distinct xs"
  by (simp add: order_by_desc_def)

lemma sorted_order_by_desc: "sorted_wrt (\<lambda>a b. k a \<ge> k b) (order_by_desc k xs)"
proof -
  have "sorted (map k (sort_key k (rev xs)))"
    by (rule sorted_sort_key)
  then have "sorted_wrt (\<lambda>a b. k a \<le> k b) (sort_key k (rev xs))"
    by (simp add: sorted_wrt_map)
  then show ?thesis
    by (simp add: order_by_desc_def sorted_wrt_rev)
qed

lemma order_by_desc_Nil: "order_by_desc k [] = []"
  by (simp add: order_by_desc_def)

lemma in_sql_limitD: "x \<in> set (sql_limit n xs) \<Longrightarrow> x \<in> set xs"
  by (auto simp: sql_limit_def split: if_splits dest: in_set_takeD)

lemma in_py_slice_toD: "x \<in> set (py_slice_to n xs) \<Longrightarrow> x \<in> set xs"
  by (auto simp: py_slice_to_def split: if_splits dest: in_set_takeD)

lemma group_by_Nil: "group_by key [] = []"
  by (simp add: group_by_def)

lemma in_group_by:
  "(k, g) \<in> set (group_by key rows) \<longleftrightarrow> k \<in> key ` set rows \<and> g = filter (\<lambda>r. key r = k) rows"
  by (auto simp: group_by_def)

lemma in_sum_groups:
  "(k, t) \<in> set (sum_groups key col rows) \<longleftrightarrow>
     k \<in> key ` set rows \<and> t = sql_sum (map col (filter (\<lambda>r. key r = k) rows))"
  by (auto simp: sum_groups_def in_group_by)

lemma in_avg_groups:
  "(k, t) \<in> set (avg_groups key col rows) \<longleftrightarrow>
     k \<in> key ` set rows \<and> t = sql_avg (map col (filter (\<lambda>r. key r = k) rows))"
  by (auto simp: avg_groups_def in_group_by)

lemma keys_sum_groups: "map fst (sum_groups key col rows) = remdups (map key rows)"
  by (simp add: sum_groups_def group_by_def comp_def)

lemma sum_groups_Nil: "sum_groups key col [] = []"
  by (simp add: sum_groups_def group_by_Nil)

lemma avg_groups_Nil: "avg_groups key col [] = []"
  by (simp add: avg_groups_def group_by_Nil)

lemma for_each_Inr:
  "(\<And>x. x \<in> set xs \<Longrightarrow> f x = Inr (g x)) \<Longrightarrow> for_each f xs = Inr (map g xs)"
  by (induction xs) simp_all

lemma region_filter_SomeD:
  "region_filter (Some g) r \<Longrightarrow> map_option region_id r = Some g"
  by (auto simp: region_filter_def split: option.splits)

lemma park_filter_SomeD: "park_filter (Some c) q p \<Longrightarrow> park_code p = c"
  by (simp add: park_filter_def)

lemma in_annual_visits_stmtD:
  assumes "(k, t) \<in> set (annual_visits_stmt db y rid pc q mt l)"
  shows "\<exists>p m r. (p, m, r) \<in> set (park_visit_region db) \<and> annual_key (p, m, r) = k \<and>
           mv_year m = y \<and> region_filter rid r \<and> park_filter pc q p"
proof -
  from assms have "(k, t) \<in> set (sum_groups annual_key total_of
      (filter (\<lambda>(p, m, r). mv_year m = y \<and> region_filter rid r \<and> park_filter pc q p)
         (park_visit_region db)))"
    by (auto simp: annual_visits_stmt_def having_min_total_def set_order_by_desc
        dest!: in_sql_limitD split: option.splits)
  then show ?thesis
    by (auto simp: in_sum_groups)
qed

lemma annual_visits_echo:
  assumes run: "annual_visits_by_park db y g c q mt l = Inr out" and r: "r \<in> set out"
  shows "(\<forall>c0. c = Some c0 \<longrightarrow> apv_park_code r = upper c0) \<and>
         (\<forall>g0. g = Some g0 \<longrightarrow> apv_region_id r = Some (upper g0))"
proof -
  from run r obtain k t where kt: "(k, t) \<in> set (annual_visits_stmt db y (map_option upper g)
      (map_option upper c) q mt l)" and rk: "r = annual_visits_out (k, t)"
    by (auto simp: annual_visits_by_park_def Let_def)
  from in_annual_visits_stmtD [OF kt] obtain p m rg where
    k: "annual_key (p, m, rg) = k" and f: "region_filter (map_option upper g) rg"
      "park_filter (map_option upper c) q p"
    by blast
  from rk k have "apv_park_code r = park_code p" "apv_region_id r = map_option region_id rg"
    by (auto simp: annual_key_def annual_visits_out_def)
  with f show ?thesis
    by (auto dest: region_filter_SomeD park_filter_SomeD)
qed

subsection \<open>Identifier filters determine the codes of the returned records\<close>

lemma sum_groups_keyD:
  "(k, t) \<in> set (sum_groups key col (filter P rows)) \<Longrightarrow> \<exists>x \<in> set rows. P x \<and> key x = k"
  by (auto simp: in_sum_groups)

lemma avg_groups_keyD:
  "(k, t) \<in> set (avg_groups key col (filter P rows)) \<Longrightarrow> \<exists>x \<in> set rows. P x \<and> key x = k"
  by (auto simp: in_avg_groups)

lemma for_each_resultD:
  "for_each f xs = Inr ys \<Longrightarrow> y \<in> set ys \<Longrightarrow> \<exists>x \<in> set xs. f x = Inr y"
  by (induction xs arbitrary: ys) (auto split: sum.splits)

lemma average_monthly_echo:
  assumes run: "average_monthly_visits_by_park db s e g c q l = Inr out" and r: "r \<in> set out"
  shows "(\<forall>c0. c = Some c0 \<longrightarrow> amv_park_code r = upper c0) \<and>
         (\<forall>g0. g = Some g0 \<longrightarrow> amv_region_id r = Some (upper g0))"
proof -
  from run r obtain k t where kt: "(k, t) \<in> set (average_monthly_stmt db s e (map_option upper g)
      (map_option upper c) q l)" and rk: "r = avg_monthly_out s e (k, t)"
    by (auto simp: average_monthly_visits_by_park_def Let_def split: if_splits)
  from kt obtain x where x: "park_region_key x = k"
      "case x of (p, m, rg) \<Rightarrow> region_filter (map_option upper g) rg \<and> park_filter (map_option upper c) q p"
    by (auto simp: average_monthly_stmt_def set_order_by_desc
        dest!: in_sql_limitD avg_groups_keyD)
  obtain p m rg where pmr: "x = (p, m, rg)" by (cases x)
  from rk x(1) have "amv_park_code r = park_code p" "amv_region_id r = map_option region_id rg"
    by (auto simp: pmr park_region_key_def avg_monthly_out_def)
  with x(2) show ?thesis
    by (auto simp: pmr dest: region_filter_SomeD park_filter_SomeD)
qed

lemma peak_season_echo:
  assumes run: "peak_season_above_threshold db y th g = Inr out" and r: "r \<in> set out"
  shows "\<forall>g0. g = Some g0 \<longrightarrow> amv_region_id r = Some (upper g0)"
proof -
  from run r obtain k t where kt: "(k, t) \<in> set (peak_season_stmt db y th (map_option upper g))"
    and rk: "r = avg_monthly_out y y (k, t)"
    by (auto simp: peak_season_above_threshold_def Let_def)
  from kt obtain x where x: "park_region_key x = k"
      "case x of (p, m, rg) \<Rightarrow> region_filter (map_option upper g) rg"
    by (auto simp: peak_season_stmt_def set_order_by_desc dest!: avg_groups_keyD)
  obtain p m rg where pmr: "x = (p, m, rg)" by (cases x)
  from rk x(1) have "amv_region_id r = map_option region_id rg"
    by (auto simp: pmr park_region_key_def avg_monthly_out_def)
  with x(2) show ?thesis
    by (auto simp: pmr dest: region_filter_SomeD)
qed

lemma above_average_echo:
  assumes run: "parks_above_system_average db y g c q = Inr out" and r: "r \<in> set out"
  shows "(\<forall>c0. c = Some c0 \<longrightarrow> paa_park_code r = upper c0) \<and>
         (\<forall>g0. g = Some g0 \<longrightarrow> paa_region_id r = Some (upper g0))"
proof -
  from run r obtain k t a where kt: "(k, t) \<in> set (above_average_stmt db y (map_option upper g)
      (map_option upper c) q a)" and rk: "r = above_average_out a (k, t)"
    by (auto simp: parks_above_system_average_def Let_def split: if_splits sum.splits)
  from kt obtain x where x: "park_region_year_key x = k"
      "case x of (p, m, rg) \<Rightarrow> region_filter (map_option upper g) rg \<and> park_filter (map_option upper c) q p"
    by (auto simp: above_average_stmt_def set_order_by_desc dest!: sum_groups_keyD)
  obtain p m rg where pmr: "x = (p, m, rg)" by (cases x)
  from rk x(1) have "paa_park_code r = park_code p" "paa_region_id r = map_option region_id rg"
    by (auto simp: pmr park_region_year_key_def above_average_out_def Let_def)
  with x(2) show ?thesis
    by (auto simp: pmr dest: region_filter_SomeD park_filter_SomeD)
qed

lemma in_enumerateD: "(i, x) \<in> set (enumerate n xs) \<Longrightarrow> x \<in> set xs"
  by (auto simp: in_set_enumerate_eq)

lemma region_totals_echo:
  assumes run: "annual_visits_by_region db y g = Inr out" and r: "r \<in> set out"
  shows "\<forall>g0. g = Some g0 \<longrightarrow> rav_region_id r = upper g0"
proof -
  from run r obtain i k t where kt: "(k, t) \<in> set (region_totals_stmt db y (map_option upper g))"
    and rk: "r = region_out (i, k, t)"
    by (auto simp: annual_visits_by_region_def Let_def dest!: in_enumerateD)
  from kt obtain rg where x: "region_id rg = fst k" "region_filter (map_option upper g) (Some rg)"
    by (auto simp: region_totals_stmt_def set_order_by_desc dest!: sum_groups_keyD)
  from rk have "rav_region_id r = fst k"
    by (cases k) (auto simp: region_out_def)
  with x show ?thesis
    by (auto simp: region_filter_def)
qed

lemma growth_echo:
  assumes run: "growth_by_region_over_time db g s e = Inr out" and r: "r \<in> set out"
  shows "gr_region_id r = upper g"
proof -
  from run r obtain x where x: "x \<in> set (growth_stmt db (upper g) s e)" and rk: "r = growth_out s e x"
    by (auto simp: growth_by_region_over_time_def Let_def set_order_by_desc split: if_splits)
  obtain p rg st et where pmr: "x = (p, rg, st, et)" by (cases x)
  from x have "region_id rg = upper g"
    by (auto simp: growth_stmt_def pmr split: if_splits)
  with rk show ?thesis
    by (simp add: pmr growth_out_def Let_def)
qed

lemma variability_echo:
  assumes run: "park_visit_variability db y g c q l = Inr out" and r: "r \<in> set out"
  shows "(\<forall>c0. c = Some c0 \<longrightarrow> var_park_code r = upper c0) \<and>
         (\<forall>g0. g = Some g0 \<longrightarrow> var_region_id r = Some (upper g0))"
proof -
  from run obtain results where fe: "for_each variability_out (variability_stmt db y (map_option upper g)
      (map_option upper c) q) = Inr results"
    and out: "out = (if l > 0 then py_slice_to l (order_by_desc var_std_dev_monthly_visits results)
                     else order_by_desc var_std_dev_monthly_visits results)"
    by (auto simp: park_visit_variability_def Let_def split: if_splits sum.splits)
  from out r have "r \<in> set results"
    by (auto simp: set_order_by_desc split: if_splits dest!: in_py_slice_toD)
  from for_each_resultD [OF fe this] obtain row where
    row: "row \<in> set (variability_stmt db y (map_option upper g) (map_option upper c) q)"
    and rr: "variability_out row = Inr r"
    by blast
  obtain k n a b where rowk: "row = (k, n, a, b)" by (cases row)
  from row obtain x where x: "park_region_year_key x = k"
      "case x of (p, m, rg) \<Rightarrow> region_filter (map_option upper g) rg \<and> park_filter (map_option upper c) q p"
    by (auto simp: variability_stmt_def rowk in_group_by)
  obtain p m rg where pmr: "x = (p, m, rg)" by (cases x)
  from rr x(1) have "var_park_code r = park_code p" "var_region_id r = map_option region_id rg"
    by (auto simp: rowk pmr park_region_year_key_def variability_out_def Let_def split: sum.splits)
  with x(2) show ?thesis
    by (auto simp: pmr dest: region_filter_SomeD park_filter_SomeD)
qed

lemma metric_echo:
  assumes run: "parks_by_metric db y mname g l = Inr out" and r: "r \<in> set out"
  shows "\<forall>g0. g = Some g0 \<longrightarrow> mp_region_id r = Some (upper g0)"
proof -
  from run r obtain col k t where kt: "(k, t) \<in> set (metric_stmt db y col (map_option upper g) l)"
    and rk: "r = metric_out (k, t)"
    by (auto simp: parks_by_metric_def Let_def split: option.splits)
  from kt obtain x where x: "park_region_year_key x = k"
      "case x of (p, m, rg) \<Rightarrow> region_filter (map_option upper g) rg"
    by (auto simp: metric_stmt_def set_order_by_desc dest!: in_sql_limitD sum_groups_keyD)
  obtain p m rg where pmr: "x = (p, m, rg)" by (cases x)
  from rk x(1) have "mp_region_id r = map_option region_id rg"
    by (auto simp: pmr park_region_year_key_def metric_out_def)
  with x(2) show ?thesis
    by (auto simp: pmr dest: region_filter_SomeD)
qed

lemma details_echo:
  assumes run: "get_park_details db c = Inr r"
  shows "pd_park_code r = upper c"
proof -
  from run obtain p rg rest where st: "park_detail_stmt db (upper c) = (p, rg) # rest"
    and r: "pd_park_code r = park_code p"
    by (auto simp: get_park_details_def Let_def split: list.splits)
  have "(p, rg) \<in> set (park_detail_stmt db (upper c))"
    by (simp add: st)
  then have "park_code p = upper c"
    by (auto simp: park_detail_stmt_def split: if_splits)
  with r show ?thesis by simp
qed

subsection \<open>The sample store\<close>

lemmas sample_defs =
  sample_store_def sample_regions_def sample_parks_def sample_visits_def
  visit_row_def park_row_def

lemma sample_store_wf: "wf_store sample_store"
  by (simp add: wf_store_def sample_defs mv_key_def)

subsection \<open>Q1 returns the stored months in ascending order\<close>

text \<open>
  Claim C8. For a well-formed store, a park and a year with at least one stored row, and any
  threshold, \<open>park_monthly_visits_with_threshold\<close> succeeds; the months of its records are
  exactly the months that have a stored row for the (uppercased) park and the year, in
  strictly ascending order; each record carries the stored total of its month; and its
  flag is true if and only if that total is at least the threshold.
\<close>

theorem monthly_series_exact_months:
  assumes wf: "wf_store db"
    and ex: "\<exists>m \<in> set (monthly_visit db). mv_park_code m = upper pc \<and> mv_year m = y"
  shows "\<exists>out. park_monthly_visits_with_threshold db pc y threshold = Inr out \<and>
           sorted_wrt (<) (map mt_month out) \<and>
           set (map mt_month out) =
             mv_month ` {m \<in> set (monthly_visit db). mv_park_code m = upper pc \<and> mv_year m = y} \<and>
           (\<forall>r \<in> set out. mt_above_threshold r \<longleftrightarrow> mt_total_visits r \<ge> threshold) \<and>
           (\<forall>r \<in> set out. \<exists>m \<in> set (monthly_visit db).
               mv_park_code m = upper pc \<and> mv_year m = y \<and> mv_month m = mt_month r \<and>
               mt_total_visits r = int_or_0 (mv_total_visits m))"
proof -
  let ?P = "\<lambda>m. mv_park_code m = upper pc \<and> mv_year m = y"
  let ?rows = "sort_key mv_month (filter ?P (monthly_visit db))"
  let ?mk = "\<lambda>m. \<lparr>mt_month = mv_month m, mt_total_visits = int_or_0 (mv_total_visits m),
                   mt_above_threshold = (int_or_0 (mv_total_visits m) \<ge> threshold)\<rparr>"
  let ?out = "map ?mk ?rows"
  from ex obtain m0 where "m0 \<in> set (filter ?P (monthly_visit db))"
    by auto
  then have "m0 \<in> set ?rows"
    by simp
  then have ne: "?rows \<noteq> []"
    by force
  have run: "park_monthly_visits_with_threshold db pc y threshold = Inr ?out"
    using ne by (simp add: park_monthly_visits_with_threshold_def monthly_stmt_def
        monthly_out_def order_by_def Let_def)
  have months: "map mt_month ?out = map mv_month ?rows"
    by (simp add: comp_def)
  from wf have "distinct (map mv_key (monthly_visit db))"
    by (simp add: wf_store_def)
  then have "distinct (map mv_month (filter ?P (monthly_visit db)))"
    by (rule distinct_months_of_scope)
  then have "distinct (map mv_month ?rows)"
    by (simp add: distinct_map)
  moreover have "sorted (map mv_month ?rows)"
    by (rule sorted_sort_key)
  ultimately have asc: "sorted_wrt (<) (map mt_month ?out)"
    unfolding months by (simp add: strict_sorted_iff)
  have exact: "set (map mt_month ?out) = mv_month ` {m \<in> set (monthly_visit db). ?P m}"
    unfolding months by auto
  have flag: "\<forall>r \<in> set ?out. mt_above_threshold r \<longleftrightarrow> mt_total_visits r \<ge> threshold"
    by auto
  have stored: "\<forall>r \<in> set ?out. \<exists>m \<in> set (monthly_visit db).
      mv_park_code m = upper pc \<and> mv_year m = y \<and> mv_month m = mt_month r \<and>
      mt_total_visits r = int_or_0 (mv_total_visits m)"
    by auto
  from run asc exact flag stored show ?thesis by blast
qed

theorem monthly_series_exact_months_witness:
  "wf_store sample_store \<and>
   (\<exists>m \<in> set (monthly_visit sample_store). mv_park_code m = upper ''grca'' \<and> mv_year m = 2023) \<and>
   park_monthly_visits_with_threshold sample_store ''grca'' 2023 150 =
     Inr [\<lparr>mt_month = 1, mt_total_visits = 100, mt_above_threshold = False\<rparr>,
          \<lparr>mt_month = 2, mt_total_visits = 200, mt_above_threshold = True\<rparr>,
          \<lparr>mt_month = 3, mt_total_visits = 300, mt_above_threshold = True\<rparr>] \<and>
   (\<exists>out. park_monthly_visits_with_threshold sample_store ''grca'' 2023 150 = Inr out \<and>
      sorted_wrt (<) (map mt_month out) \<and>
      set (map mt_month out) =
        mv_month ` {m \<in> set (monthly_visit sample_store).
                     mv_park_code m = upper ''grca'' \<and> mv_year m = 2023})"
proof -
  have ex: "\<exists>m \<in> set (monthly_visit sample_store).
      mv_park_code m = upper ''grca'' \<and> mv_year m = 2023"
    by (simp add: sample_defs upper_def upper_char_def)
  have run: "park_monthly_visits_with_threshold sample_store ''grca'' 2023 150 =
     Inr [\<lparr>mt_month = 1, mt_total_visits = 100, mt_above_threshold = False\<rparr>,
          \<lparr>mt_month = 2, mt_total_visits = 200, mt_above_threshold = True\<rparr>,
          \<lparr>mt_month = 3, mt_total_visits = 300, mt_above_threshold = True\<rparr>]"
    by (simp add: park_monthly_visits_with_threshold_def monthly_stmt_def monthly_out_def
        order_by_def sample_defs upper_def upper_char_def int_or_0_def)
  from monthly_series_exact_months [OF sample_store_wf ex, of 150]
  have "\<exists>out. park_monthly_visits_with_threshold sample_store ''grca'' 2023 150 = Inr out \<and>
      sorted_wrt (<) (map mt_month out) \<and>
      set (map mt_month out) =
        mv_month ` {m \<in> set (monthly_visit sample_store).
                     mv_park_code m = upper ''grca'' \<and> mv_year m = 2023}"
    by blast
  with sample_store_wf ex run show ?thesis by blast
qed

subsection \<open>Inverted year ranges are rejected before the store is read\<close>

text \<open>
  Claim C7. When \<open>start_year > end_year\<close>, \<open>average_monthly_visits_by_park\<close> and
  \<open>growth_by_region_over_time\<close> fail with status 400 (BadRequest), whatever the other
  parameters are and whatever the store holds: the check precedes every query, so the
  outcome does not depend on the store.
\<close>

theorem inverted_year_range_bad_request:
  assumes "start_year > end_year"
  shows "average_monthly_visits_by_park db start_year end_year rid pc q limit =
           Inl (HTTPException 400 ''start_year must be <= end_year'') \<and>
         growth_by_region_over_time db reg start_year end_year =
           Inl (HTTPException 400 ''start_year must be < end_year'')"
  using assms
  by (simp add: average_monthly_visits_by_park_def growth_by_region_over_time_def)

theorem inverted_year_range_bad_request_witness:
  "(2024::int) > 2022 \<and>
   average_monthly_visits_by_park sample_store 2024 2022 (Some ''imr'') None (Some ''grand'') 100 =
     Inl (HTTPException 400 ''start_year must be <= end_year'') \<and>
   growth_by_region_over_time sample_store ''imr'' 2024 2022 =
     Inl (HTTPException 400 ''start_year must be < end_year'')"
  using inverted_year_range_bad_request
    [of 2022 2024 sample_store "Some ''imr''" None "Some ''grand''" 100 "''imr''"]
  by simp

subsection \<open>An exact park code overrides the name query\<close>

lemma park_filter_code_ignores_query:
  "park_filter (Some c) query = park_filter (Some c) None"
  by (simp add: park_filter_def fun_eq_iff)

text \<open>
  Claim C10. In the four handlers that take both \<open>park_code\<close> and \<open>query\<close>
  (annual totals by park, average monthly visits, parks above average, variability), a
  call that supplies a park code returns the same result with any query string as with
  the query omitted.
\<close>

theorem park_code_overrides_query:
  "annual_visits_by_park db year rid (Some c) (Some q) min_total limit =
     annual_visits_by_park db year rid (Some c) None min_total limit \<and>
   average_monthly_visits_by_park db start_year end_year rid (Some c) (Some q) limit =
     average_monthly_visits_by_park db start_year end_year rid (Some c) None limit \<and>
   parks_above_system_average db year rid (Some c) (Some q) =
     parks_above_system_average db year rid (Some c) None \<and>
   park_visit_variability db year rid (Some c) (Some q) limit =
     park_visit_variability db year rid (Some c) None limit"
  unfolding annual_visits_by_park_def average_monthly_visits_by_park_def
    parks_above_system_average_def park_visit_variability_def
    annual_visits_stmt_def average_monthly_stmt_def above_average_stmt_def variability_stmt_def
  by (simp only: Let_def option.map park_filter_code_ignores_query [of _ "Some q"])

theorem park_code_overrides_query_witness:
  "annual_visits_by_park sample_store 2023 None (Some ''grca'') (Some ''zion'') None 10 =
     annual_visits_by_park sample_store 2023 None (Some ''grca'') None None 10 \<and>
   average_monthly_visits_by_park sample_store 2020 2023 None (Some ''grca'') (Some ''zion'') 10 =
     average_monthly_visits_by_park sample_store 2020 2023 None (Some ''grca'') None 10 \<and>
   parks_above_system_average sample_store 2023 None (Some ''grca'') (Some ''zion'') =
     parks_above_system_average sample_store 2023 None (Some ''grca'') None \<and>
   park_visit_variability sample_store 2023 None (Some ''grca'') (Some ''zion'') 10 =
     park_visit_variability sample_store 2023 None (Some ''grca'') None 10"
  by (rule park_code_overrides_query)

subsection \<open>Identifier filters are case-insensitive\<close>

lemma monthly_visits_upper:
  "park_monthly_visits_with_threshold db (upper c) y t = park_monthly_visits_with_threshold db c y t"
  unfolding park_monthly_visits_with_threshold_def by (simp only: upper_idem)

lemma annual_visits_upper:
  "annual_visits_by_park db y (map_option upper g) (map_option upper pc) q mt l =
   annual_visits_by_park db y g pc q mt l"
  unfolding annual_visits_by_park_def by (simp only: map_option_upper_idem)

lemma average_monthly_upper:
  "average_monthly_visits_by_park db s e (map_option upper g) (map_option upper pc) q l =
   average_monthly_visits_by_park db s e g pc q l"
  unfolding average_monthly_visits_by_park_def by (simp only: map_option_upper_idem)

lemma peak_season_upper:
  "peak_season_above_threshold db y t (map_option upper g) = peak_season_above_threshold db y t g"
  unfolding peak_season_above_threshold_def by (simp only: map_option_upper_idem)

lemma above_average_upper:
  "parks_above_system_average db y (map_option upper g) (map_option upper pc) q =
   parks_above_system_average db y g pc q"
  unfolding parks_above_system_average_def by (simp only: map_option_upper_idem)

lemma top_parks_upper:
  "top_parks_by_year sl db y l (map_option upper g) q = top_parks_by_year sl db y l g q"
  unfolding top_parks_by_year_def by (simp only: map_option_upper_idem)

lemma region_totals_upper:
  "annual_visits_by_region db y (map_option upper g) = annual_visits_by_region db y g"
  unfolding annual_visits_by_region_def by (simp only: map_option_upper_idem)

lemma month_change_upper:
  "month_to_month_change db (upper c) y = month_to_month_change db c y"
  unfolding month_to_month_change_def by (simp only: upper_idem)

lemma growth_upper:
  "growth_by_region_over_time db (upper r) s e = growth_by_region_over_time db r s e"
  unfolding growth_by_region_over_time_def by (simp only: upper_idem)

lemma variability_upper:
  "park_visit_variability db y (map_option upper g) (map_option upper pc) q l =
   park_visit_variability db y g pc q l"
  unfolding park_visit_variability_def by (simp only: map_option_upper_idem)

lemma metric_upper:
  "parks_by_metric db y m (map_option upper g) l = parks_by_metric db y m g l"
  unfolding parks_by_metric_def by (simp only: map_option_upper_idem)

lemma details_upper: "get_park_details db (upper c) = get_park_details db c"
  unfolding get_park_details_def by (simp only: upper_idem)

text \<open>
  Claim C9. Every handler that takes a park code or a region code returns, for a code in
  any letter case, what it returns for the uppercased code (for the optional filters: for
  the uppercased filters); and the records of a successful response carry the uppercased
  code wherever the response model has the column of the filtered identifier.
\<close>

theorem identifier_case_insensitive:
  "(get_park_details db c = get_park_details db (upper c) \<and>
    park_monthly_visits_with_threshold db c y t = park_monthly_visits_with_threshold db (upper c) y t \<and>
    month_to_month_change db c y = month_to_month_change db (upper c) y \<and>
    growth_by_region_over_time db c s e = growth_by_region_over_time db (upper c) s e \<and>
    annual_visits_by_park db y g pc q mt l =
      annual_visits_by_park db y (map_option upper g) (map_option upper pc) q mt l \<and>
    average_monthly_visits_by_park db s e g pc q l =
      average_monthly_visits_by_park db s e (map_option upper g) (map_option upper pc) q l \<and>
    parks_above_system_average db y g pc q =
      parks_above_system_average db y (map_option upper g) (map_option upper pc) q \<and>
    park_visit_variability db y g pc q l =
      park_visit_variability db y (map_option upper g) (map_option upper pc) q l \<and>
    peak_season_above_threshold db y t g = peak_season_above_threshold db y t (map_option upper g) \<and>
    top_parks_by_year sl db y l g q = top_parks_by_year sl db y l (map_option upper g) q \<and>
    annual_visits_by_region db y g = annual_visits_by_region db y (map_option upper g) \<and>
    parks_by_metric db y m g l = parks_by_metric db y m (map_option upper g) l) \<and>
   (\<forall>r. get_park_details db c = Inr r \<longrightarrow> pd_park_code r = upper c) \<and>
   (\<forall>out. growth_by_region_over_time db c s e = Inr out \<longrightarrow>
      (\<forall>r \<in> set out. gr_region_id r = upper c)) \<and>
   (\<forall>out. annual_visits_by_park db y g pc q mt l = Inr out \<longrightarrow>
      (\<forall>r \<in> set out. (\<forall>c0. pc = Some c0 \<longrightarrow> apv_park_code r = upper c0) \<and>
                       (\<forall>g0. g = Some g0 \<longrightarrow> apv_region_id r = Some (upper g0)))) \<and>
   (\<forall>out. average_monthly_visits_by_park db s e g pc q l = Inr out \<longrightarrow>
      (\<forall>r \<in> set out. (\<forall>c0. pc = Some c0 \<longrightarrow> amv_park_code r = upper c0) \<and>
                       (\<forall>g0. g = Some g0 \<longrightarrow> amv_region_id r = Some (upper g0)))) \<and>
   (\<forall>out. parks_above_system_average db y g pc q = Inr out \<longrightarrow>
      (\<forall>r \<in> set out. (\<forall>c0. pc = Some c0 \<longrightarrow> paa_park_code r = upper c0) \<and>
                       (\<forall>g0. g = Some g0 \<longrightarrow> paa_region_id r = Some (upper g0)))) \<and>
   (\<forall>out. park_visit_variability db y g pc q l = Inr out \<longrightarrow>
      (\<forall>r \<in> set out. (\<forall>c0. pc = Some c0 \<longrightarrow> var_park_code r = upper c0) \<and>
                       (\<forall>g0. g = Some g0 \<longrightarrow> var_region_id r = Some (upper g0)))) \<and>
   (\<forall>out. peak_season_above_threshold db y t g = Inr out \<longrightarrow>
      (\<forall>r \<in> set out. \<forall>g0. g = Some g0 \<longrightarrow> amv_region_id r = Some (upper g0))) \<and>
   (\<forall>out. annual_visits_by_region db y g = Inr out \<longrightarrow>
      (\<forall>r \<in> set out. \<forall>g0. g = Some g0 \<longrightarrow> rav_region_id r = upper g0)) \<and>
   (\<forall>out. parks_by_metric db y m g l = Inr out \<longrightarrow>
      (\<forall>r \<in> set out. \<forall>g0. g = Some g0 \<longrightarrow> mp_region_id r = Some (upper g0)))"
proof -
  have inv: "get_park_details db c = get_park_details db (upper c) \<and>
    park_monthly_visits_with_threshold db c y t = park_monthly_visits_with_threshold db (upper c) y t \<and>
    month_to_month_change db c y = month_to_month_change db (upper c) y \<and>
    growth_by_region_over_time db c s e = growth_by_region_over_time db (upper c) s e \<and>
    annual_visits_by_park db y g pc q mt l =
      annual_visits_by_park db y (map_option upper g) (map_option upper pc) q mt l \<and>
    average_monthly_visits_by_park db s e g pc q l =
      average_monthly_visits_by_park db s e (map_option upper g) (map_option upper pc) q l \<and>
    parks_above_system_average db y g pc q =
      parks_above_system_average db y (map_option upper g) (map_option upper pc) q \<and>
    park_visit_variability db y g pc q l =
      park_visit_variability db y (map_option upper g) (map_option upper pc) q l \<and>
    peak_season_above_threshold db y t g = peak_season_above_threshold db y t (map_option upper g) \<and>
    top_parks_by_year sl db y l g q = top_parks_by_year sl db y l (map_option upper g) q \<and>
    annual_visits_by_region db y g = annual_visits_by_region db y (map_option upper g) \<and>
    parks_by_metric db y m g l = parks_by_metric db y m (map_option upper g) l"
    by (simp only: monthly_visits_upper annual_visits_upper average_monthly_upper
        peak_season_upper above_average_upper top_parks_upper region_totals_upper
        month_change_upper growth_upper variability_upper metric_upper details_upper simp_thms)
  have e1: "\<forall>r. get_park_details db c = Inr r \<longrightarrow> pd_park_code r = upper c"
    using details_echo by blast
  have e2: "\<forall>out. growth_by_region_over_time db c s e = Inr out \<longrightarrow>
      (\<forall>r \<in> set out. gr_region_id r = upper c)"
    using growth_echo by blast
  have e3: "\<forall>out. annual_visits_by_park db y g pc q mt l = Inr out \<longrightarrow>
      (\<forall>r \<in> set out. (\<forall>c0. pc = Some c0 \<longrightarrow> apv_park_code r = upper c0) \<and>
                       (\<forall>g0. g = Some g0 \<longrightarrow> apv_region_id r = Some (upper g0)))"
    using annual_visits_echo by blast
  have e4: "\<forall>out. average_monthly_visits_by_park db s e g pc q l = Inr out \<longrightarrow>
      (\<forall>r \<in> set out. (\<forall>c0. pc = Some c0 \<longrightarrow> amv_park_code r = upper c0) \<and>
                       (\<forall>g0. g = Some g0 \<longrightarrow> amv_region_id r = Some (upper g0)))"
    using average_monthly_echo by blast
  have e5: "\<forall>out. parks_above_system_average db y g pc q = Inr out \<longrightarrow>
      (\<forall>r \<in> set out. (\<forall>c0. pc = Some c0 \<longrightarrow> paa_park_code r = upper c0) \<and>
                       (\<forall>g0. g = Some g0 \<longrightarrow> paa_region_id r = Some (upper g0)))"
    using above_average_echo by blast
  have e6: "\<forall>out. park_visit_variability db y g pc q l = Inr out \<longrightarrow>
      (\<forall>r \<in> set out. (\<forall>c0. pc = Some c0 \<longrightarrow> var_park_code r = upper c0) \<and>
                       (\<forall>g0. g = Some g0 \<longrightarrow> var_region_id r = Some (upper g0)))"
    using variability_echo by blast
  have e7: "\<forall>out. peak_season_above_threshold db y t g = Inr out \<longrightarrow>
      (\<forall>r \<in> set out. \<forall>g0. g = Some g0 \<longrightarrow> amv_region_id r = Some (upper g0))"
    using peak_season_echo by blast
  have e8: "\<forall>out. annual_visits_by_region db y g = Inr out \<longrightarrow>
      (\<forall>r \<in> set out. \<forall>g0. g = Some g0 \<longrightarrow> rav_region_id r = upper g0)"
    using region_totals_echo by blast
  have e9: "\<forall>out. parks_by_metric db y m g l = Inr out \<longrightarrow>
      (\<forall>r \<in> set out. \<forall>g0. g = Some g0 \<longrightarrow> mp_region_id r = Some (upper g0))"
    using metric_echo by blast
  from inv e1 e2 e3 e4 e5 e6 e7 e8 e9 show ?thesis
    by (intro conjI) blast+
qed

lemma sample_annual_visits_grca:
  "annual_visits_by_park sample_store 2020 (Some ''imr'') (Some ''grca'') None None 100 =
     Inr [\<lparr>apv_park_code = ''GRCA'', apv_park_name = ''Grand Canyon National Park'',
           apv_region_id = Some ''IMR'', apv_region_name = Some ''Intermountain'',
           apv_year = 2020, apv_annual_total_visits = 100, apv_state = Some ''AZ'',
           apv_latitude = None, apv_longitude = None\<rparr>]"
  by code_simp

theorem identifier_case_insensitive_witness:
  "annual_visits_by_park sample_store 2020 (Some ''imr'') (Some ''grca'') None None 100 =
     Inr [\<lparr>apv_park_code = ''GRCA'', apv_park_name = ''Grand Canyon National Park'',
           apv_region_id = Some ''IMR'', apv_region_name = Some ''Intermountain'',
           apv_year = 2020, apv_annual_total_visits = 100, apv_state = Some ''AZ'',
           apv_latitude = None, apv_longitude = None\<rparr>] \<and>
   annual_visits_by_park sample_store 2020 (Some ''imr'') (Some ''grca'') None None 100 =
     annual_visits_by_park sample_store 2020 (map_option upper (Some ''imr''))
       (map_option upper (Some ''grca'')) None None 100 \<and>
   map apv_park_code [\<lparr>apv_park_code = ''GRCA'', apv_park_name = ''Grand Canyon National Park'',
           apv_region_id = Some ''IMR'', apv_region_name = Some ''Intermountain'',
           apv_year = 2020, apv_annual_total_visits = 100, apv_state = Some ''AZ'',
           apv_latitude = None, apv_longitude = None\<rparr>] = [upper ''grca''] \<and>
   map apv_region_id [\<lparr>apv_park_code = ''GRCA'', apv_park_name = ''Grand Canyon National Park'',
           apv_region_id = Some ''IMR'', apv_region_name = Some ''Intermountain'',
           apv_year = 2020, apv_annual_total_visits = 100, apv_state = Some ''AZ'',
           apv_latitude = None, apv_longitude = None\<rparr>] = [Some (upper ''imr'')]"
  using identifier_case_insensitive [of sample_store "''grca''" 2020 0 2020 2021 "Some ''imr''"
      "Some ''grca''" None None 100 lower "''tent_campers''"] sample_annual_visits_grca
  by (simp add: upper_def upper_char_def)

subsection \<open>Q8: the change of the first available month\<close>

text \<open>
  Claim C5 fails on the code. The sample store holds the months 1, 2 and 4 of ZION in 2024
  with totals 500, 650 and 400. The handler reports the change 500 for month 1 and 400 for
  month 4: where the row of the preceding month number is missing, \<^verbatim>\<open>coalesce\<close> turns the
  missing total into 0, so the change is the month's own total instead of NULL.
\<close>

theorem month_to_month_first_month_change:
  "month_to_month_change sample_store ''zion'' 2024 =
     Inr [\<lparr>mmc_month = 1, mmc_total_visits = 500, mmc_change_from_previous = Some 500\<rparr>,
          \<lparr>mmc_month = 2, mmc_total_visits = 650, mmc_change_from_previous = Some 150\<rparr>,
          \<lparr>mmc_month = 4, mmc_total_visits = 400, mmc_change_from_previous = Some 400\<rparr>]"
  by code_simp

subsection \<open>Rounding to binary64 and to integers\<close>

lemma py_round_int: "py_round (real_of_int n) = n"
  by (simp add: py_round_def)

lemma py_round_eqI:
  assumes "real_of_int n - 1 / 2 < x" and "x < real_of_int n + 1 / 2"
  shows "py_round x = n"
proof (cases "x < real_of_int n")
  case True
  with assms have "\<lfloor>x\<rfloor> = n - 1"
    by (simp add: floor_eq_iff)
  with assms show ?thesis
    by (simp add: py_round_def Let_def)
next
  case False
  with assms have "\<lfloor>x\<rfloor> = n"
    by (simp add: floor_eq_iff)
  with assms show ?thesis
    by (simp add: py_round_def Let_def)
qed

lemma py_round_error: "\<bar>real_of_int (py_round z) - z\<bar> \<le> 1 / 2"
  by (auto simp: py_round_def Let_def abs_le_iff)

lemma expo_bounds:
  assumes "x \<noteq> 0"
  shows "2 powi (expo x) \<le> \<bar>x\<bar> \<and> \<bar>x\<bar> < 2 powi (expo x + 1)"
proof (cases "1 \<le> \<bar>x\<bar>")
  case True
  let ?m = "\<lfloor>\<bar>x\<bar>\<rfloor>"
  from True have m: "0 < ?m"
    by (simp add: less_floor_iff)
  from bitlen_bounds [OF m] have b: "2 ^ nat (bitlen ?m - 1) \<le> ?m" "?m < 2 ^ nat (bitlen ?m)"
    by simp_all
  from m have bl: "1 \<le> bitlen ?m"
    by (simp add: bitlen_alt_def)
  from True have e: "expo x = bitlen ?m - 1"
    by (simp add: expo_def)
  from bl have p1: "(2::real) powi (bitlen ?m - 1) = 2 ^ nat (bitlen ?m - 1)"
    by (simp add: power_int_def)
  from bl have p2: "(2::real) powi (bitlen ?m - 1 + 1) = 2 ^ nat (bitlen ?m)"
    by (simp add: power_int_def)
  from b(1) have "real_of_int (2 ^ nat (bitlen ?m - 1)) \<le> real_of_int ?m"
    by (simp only: of_int_le_iff)
  then have "(2::real) ^ nat (bitlen ?m - 1) \<le> real_of_int ?m"
    by simp
  moreover have "real_of_int ?m \<le> \<bar>x\<bar>"
    by linarith
  ultimately have lo: "(2::real) ^ nat (bitlen ?m - 1) \<le> \<bar>x\<bar>"
    by linarith
  from b(2) have "?m + 1 \<le> 2 ^ nat (bitlen ?m)"
    by simp
  then have "real_of_int (?m + 1) \<le> real_of_int (2 ^ nat (bitlen ?m))"
    by (simp only: of_int_le_iff)
  then have "real_of_int ?m + 1 \<le> (2::real) ^ nat (bitlen ?m)"
    by simp
  moreover have "\<bar>x\<bar> < real_of_int ?m + 1"
    by linarith
  ultimately have hi: "\<bar>x\<bar> < (2::real) ^ nat (bitlen ?m)"
    by linarith
  from lo hi show ?thesis
    unfolding e p1 p2 by simp
next
  case False
  with assms have x: "0 < \<bar>x\<bar>" "\<bar>x\<bar> < 1"
    by simp_all
  let ?y = "1 / \<bar>x\<bar>"
  let ?c = "\<lceil>?y\<rceil> - 1"
  from x have y1: "1 < ?y"
    by simp
  then have "1 < \<lceil>?y\<rceil>"
    by (simp add: less_ceiling_iff)
  then have c: "0 < ?c"
    by simp
  from bitlen_bounds [OF c] have b: "2 ^ nat (bitlen ?c - 1) \<le> ?c" "?c < 2 ^ nat (bitlen ?c)"
    by simp_all
  from c have bl: "1 \<le> bitlen ?c"
    by (simp add: bitlen_alt_def)
  from False have e: "expo x = - bitlen ?c"
    by (simp add: expo_def)
  from b(2) have "\<lceil>?y\<rceil> \<le> 2 ^ nat (bitlen ?c)"
    by simp
  then have "real_of_int \<lceil>?y\<rceil> \<le> real_of_int (2 ^ nat (bitlen ?c))"
    by (simp only: of_int_le_iff)
  then have "real_of_int \<lceil>?y\<rceil> \<le> (2::real) ^ nat (bitlen ?c)"
    by simp
  moreover have "?y \<le> real_of_int \<lceil>?y\<rceil>"
    by (rule le_of_int_ceiling)
  ultimately have yhi: "?y \<le> 2 ^ nat (bitlen ?c)"
    by linarith
  from b(1) have "real_of_int (2 ^ nat (bitlen ?c - 1)) \<le> real_of_int ?c"
    by (simp only: of_int_le_iff)
  then have "(2::real) ^ nat (bitlen ?c - 1) \<le> real_of_int \<lceil>?y\<rceil> - 1"
    by simp
  moreover have "real_of_int \<lceil>?y\<rceil> - 1 < ?y"
    by linarith
  ultimately have ylo: "2 ^ nat (bitlen ?c - 1) < ?y"
    by linarith
  from bl have p1: "(2::real) powi (- bitlen ?c) = 1 / 2 ^ nat (bitlen ?c)"
    by (simp add: power_int_def field_simps)
  from bl have p2: "(2::real) powi (- bitlen ?c + 1) = 1 / 2 ^ nat (bitlen ?c - 1)"
    by (simp add: power_int_def field_simps nat_diff_distrib)
  from yhi x have lo: "1 / 2 ^ nat (bitlen ?c) \<le> \<bar>x\<bar>"
    by (simp add: field_simps)
  from ylo x have hi: "\<bar>x\<bar> < 1 / 2 ^ nat (bitlen ?c - 1)"
    by (simp add: field_simps)
  from lo hi show ?thesis
    unfolding e p1 p2 by simp
qed


lemma expo_less:
  assumes "x \<noteq> 0" and "\<bar>x\<bar> < 2 powi k"
  shows "expo x < k"
proof (rule ccontr)
  assume "\<not> expo x < k"
  then have "k \<le> expo x"
    by simp
  then have "(2::real) powi k \<le> 2 powi (expo x)"
    by (simp add: power_int_increasing)
  with expo_bounds [OF assms(1)] assms(2) show False
    by linarith
qed

lemma expo_ge:
  assumes "x \<noteq> 0" and "2 powi k \<le> \<bar>x\<bar>"
  shows "k \<le> expo x"
proof (rule ccontr)
  assume "\<not> k \<le> expo x"
  then have "expo x + 1 \<le> k"
    by simp
  then have "(2::real) powi (expo x + 1) \<le> 2 powi k"
    by (simp add: power_int_increasing)
  with expo_bounds [OF assms(1)] assms(2) show False
    by linarith
qed

lemma abs_scaled:
  fixes u :: real
  assumes "0 < u"
  shows "\<bar>r * u - x\<bar> = \<bar>r - x / u\<bar> * u"
proof -
  from assms have "r * u - x = (r - x / u) * u"
    by (simp add: field_simps)
  then have "\<bar>r * u - x\<bar> = \<bar>r - x / u\<bar> * \<bar>u\<bar>"
    by (simp only: abs_mult)
  with assms show ?thesis
    by simp
qed

lemma scaled_quotient:
  fixes u :: real
  assumes "0 < u" and "p = u * c"
  shows "k * p / u = k * c"
  using assms by simp

lemma quotient_times:
  fixes u :: real
  assumes "0 < u" and "x / u = c"
  shows "c * u = x"
  using assms by auto

lemma binary64_error:
  assumes x: "x \<noteq> 0" and e: "- 1022 \<le> expo x"
  shows "\<bar>binary64 x - x\<bar> \<le> 2 powi (expo x - 53)"
proof -
  let ?u = "(2::real) powi (expo x - 52)"
  have u: "0 < ?u"
    by simp
  from x e have b: "binary64 x = real_of_int (py_round (x / ?u)) * ?u"
    by (simp add: binary64_def Let_def max_def)
  have "\<bar>binary64 x - x\<bar> = \<bar>real_of_int (py_round (x / ?u)) - x / ?u\<bar> * ?u"
    unfolding b by (rule abs_scaled [OF u])
  also have "\<dots> \<le> 1 / 2 * ?u"
    using py_round_error [of "x / ?u"] u by (intro mult_right_mono) simp_all
  also have "\<dots> = 2 powi (expo x - 53)"
    by (simp add: power_int_diff)
  finally show ?thesis .
qed

lemma binary64_exact:
  assumes k: "\<bar>k\<bar> < 2 ^ 53" and j: "- 1074 \<le> j"
  shows "binary64 (real_of_int k * 2 powi j) = real_of_int k * 2 powi j"
proof (cases "k = 0")
  case True
  then show ?thesis
    by (simp add: binary64_def)
next
  case False
  let ?x = "real_of_int k * 2 powi j"
  from False have x: "?x \<noteq> 0"
    by simp
  from k have "\<bar>real_of_int k\<bar> < 2 ^ 53"
    by (metis of_int_abs of_int_less_numeral_power_cancel_iff)
  then have "\<bar>?x\<bar> < 2 ^ 53 * 2 powi j"
    by (simp add: abs_mult)
  also have "\<dots> = 2 powi (53 + j)"
    by (simp add: power_int_add)
  finally have "expo ?x < 53 + j"
    by (rule expo_less [OF x])
  with j have E: "max (expo ?x) (- 1022) - 52 \<le> j"
    by simp
  define d where "d = nat (j - (max (expo ?x) (- 1022) - 52))"
  from E have jd: "j = (max (expo ?x) (- 1022) - 52) + int d"
    by (simp add: d_def)
  let ?u = "(2::real) powi (max (expo ?x) (- 1022) - 52)"
  have u: "0 < ?u"
    by simp
  have "2 powi j = ?u * 2 ^ d"
    by (subst jd) (simp add: power_int_add)
  from scaled_quotient [OF u this, of "real_of_int k"]
  have q: "?x / ?u = real_of_int (k * 2 ^ d)"
    by simp
  have "binary64 ?x = real_of_int (py_round (?x / ?u)) * ?u"
    using x by (simp add: binary64_def Let_def)
  also have "\<dots> = real_of_int (k * 2 ^ d) * ?u"
    unfolding q py_round_int ..
  also have "\<dots> = ?x"
    by (rule quotient_times [OF u q])
  finally show ?thesis .
qed

lemma binary64_of_int:
  assumes "\<bar>i\<bar> < 2 ^ 53"
  shows "binary64 (real_of_int i) = real_of_int i"
  using binary64_exact [OF assms, of 0] by simp

lemma binary64_half_int:
  assumes "\<bar>k\<bar> < 2 ^ 53"
  shows "binary64 (real_of_int k / 2) = real_of_int k / 2"
  using binary64_exact [OF assms, of "- 1"] by (simp add: power_int_minus field_simps)


lemma half_integer_gap:
  assumes b: "b \<noteq> 0" and nh: "\<not> (\<exists>k. 2 * a = k * b)"
  shows "1 / (2 * \<bar>real_of_int b\<bar>) \<le> \<bar>real_of_int m / 2 - real_of_int a / real_of_int b\<bar>"
proof -
  from nh have "m * b - 2 * a \<noteq> 0"
    by (metis eq_iff_diff_eq_0)
  then have "1 \<le> \<bar>m * b - 2 * a\<bar>"
    by simp
  then have "real_of_int 1 \<le> real_of_int \<bar>m * b - 2 * a\<bar>"
    by (simp only: of_int_le_iff)
  then have one: "1 \<le> \<bar>real_of_int (m * b - 2 * a)\<bar>"
    by simp
  from b have "real_of_int m / 2 - real_of_int a / real_of_int b =
      real_of_int (m * b - 2 * a) / (2 * real_of_int b)"
    by (simp add: field_simps)
  then have "\<bar>real_of_int m / 2 - real_of_int a / real_of_int b\<bar> =
      \<bar>real_of_int (m * b - 2 * a)\<bar> / (2 * \<bar>real_of_int b\<bar>)"
    by (simp only: abs_divide abs_mult)
  moreover from one have "1 / (2 * \<bar>real_of_int b\<bar>) \<le>
      \<bar>real_of_int (m * b - 2 * a)\<bar> / (2 * \<bar>real_of_int b\<bar>)"
    by (rule divide_right_mono) simp
  ultimately show ?thesis
    by simp
qed

lemma round_quotient:
  assumes b: "b \<noteq> 0" and a: "\<bar>a\<bar> < 2 ^ 52" and bb: "\<bar>b\<bar> < 2 ^ 53"
  shows "py_round (binary64 (real_of_int a / real_of_int b)) =
         py_round (real_of_int a / real_of_int b)"
proof (cases "\<exists>k. 2 * a = k * b")
  case True
  then obtain k where k: "2 * a = k * b"
    by blast
  from b have b1: "1 \<le> \<bar>b\<bar>"
    by simp
  have "\<bar>k\<bar> * 1 \<le> \<bar>k\<bar> * \<bar>b\<bar>"
    using b1 by (intro mult_left_mono) simp_all
  also have "\<dots> = \<bar>2 * a\<bar>"
    by (simp add: k abs_mult)
  also from a have "\<dots> < 2 ^ 53"
    by simp
  finally have kk: "\<bar>k\<bar> < 2 ^ 53"
    by simp
  from k have "real_of_int (2 * a) = real_of_int (k * b)"
    by simp
  with b have eq: "real_of_int a / real_of_int b = real_of_int k / 2"
    by (simp add: field_simps)
  show ?thesis
    unfolding eq binary64_half_int [OF kk] ..
next
  case False
  let ?q = "real_of_int a / real_of_int b"
  let ?B = "\<bar>real_of_int b\<bar>"
  let ?n = "py_round ?q"
  from False have a0: "a \<noteq> 0"
    by auto
  with b have q0: "?q \<noteq> 0"
    by simp
  from b have B1: "1 \<le> ?B"
    by (metis abs_ge_zero abs_zero int_one_le_iff_zero_less linorder_not_le of_int_0 of_int_1
        of_int_abs of_int_le_iff order_le_less zero_less_abs_iff)
  from bb have B53: "?B < 2 ^ 53"
    by (metis of_int_abs of_int_less_numeral_power_cancel_iff)
  from a have A52: "\<bar>real_of_int a\<bar> < 2 ^ 52"
    by (metis of_int_abs of_int_less_numeral_power_cancel_iff)
  from a0 have A1: "1 \<le> \<bar>real_of_int a\<bar>"
    by (metis abs_ge_zero abs_zero int_one_le_iff_zero_less linorder_not_le of_int_0 of_int_1
        of_int_abs of_int_le_iff order_le_less zero_less_abs_iff)
  have absq: "\<bar>?q\<bar> = \<bar>real_of_int a\<bar> / ?B"
    by (rule abs_divide)
  from A1 B1 B53 have "1 / 2 ^ 53 \<le> \<bar>real_of_int a\<bar> / ?B"
    by (simp add: field_simps)
  then have "(2::real) powi (- 53) \<le> \<bar>?q\<bar>"
    unfolding absq by (simp add: power_int_minus field_simps)
  from expo_ge [OF q0 this] have e: "- 1022 \<le> expo ?q"
    by simp
  from expo_bounds [OF q0] have "2 powi (expo ?q) \<le> \<bar>real_of_int a\<bar> / ?B"
    unfolding absq by simp
  then have "2 powi (expo ?q) * ?B \<le> \<bar>real_of_int a\<bar>"
    using B1 by (simp add: field_simps)
  with A52 have "2 powi (expo ?q) * ?B < 2 ^ 52"
    by linarith
  then have "2 powi (expo ?q) / 2 ^ 53 < 1 / (2 * ?B)"
    using B1 by (simp add: field_simps)
  moreover have "(2::real) powi (expo ?q - 53) = 2 powi (expo ?q) / 2 ^ 53"
    by (simp add: power_int_diff)
  ultimately have err: "\<bar>binary64 ?q - ?q\<bar> < 1 / (2 * ?B)"
    using binary64_error [OF q0 e] by linarith
  from half_integer_gap [OF b False, of "2 * ?n - 1"]
  have g1: "1 / (2 * ?B) \<le> \<bar>real_of_int ?n - 1 / 2 - ?q\<bar>"
    by (simp add: diff_divide_distrib)
  from half_integer_gap [OF b False, of "2 * ?n + 1"]
  have g2: "1 / (2 * ?B) \<le> \<bar>real_of_int ?n + 1 / 2 - ?q\<bar>"
    by (simp add: add_divide_distrib)
  from py_round_error [of ?q] have r: "real_of_int ?n - 1 / 2 \<le> ?q" "?q \<le> real_of_int ?n + 1 / 2"
    by linarith+
  from g1 r(1) have lo: "real_of_int ?n - 1 / 2 + 1 / (2 * ?B) \<le> ?q"
    by linarith
  from g2 r(2) have hi: "?q + 1 / (2 * ?B) \<le> real_of_int ?n + 1 / 2"
    by linarith
  from err lo hi have "real_of_int ?n - 1 / 2 < binary64 ?q" "binary64 ?q < real_of_int ?n + 1 / 2"
    by linarith+
  then show ?thesis
    by (rule py_round_eqI)
qed

lemma py_round_ge: "real_of_int k \<le> x \<Longrightarrow> k \<le> py_round x"
  by (auto simp: py_round_def Let_def le_floor_iff) linarith+

lemma py_round_le: "x \<le> real_of_int k \<Longrightarrow> py_round x \<le> k"
  by (auto simp: py_round_def Let_def) linarith+

lemma py_round_even_range:
  assumes lo: "real_of_int n - 1 / 2 \<le> x" and hi: "x \<le> real_of_int n + 1 / 2" and ev: "even n"
  shows "py_round x = n"
proof -
  consider "x = real_of_int n - 1 / 2" | "x = real_of_int n + 1 / 2"
    | "real_of_int n - 1 / 2 < x" "x < real_of_int n + 1 / 2"
    using lo hi by linarith
  then show ?thesis
  proof cases
    case 1
    then have "\<lfloor>x\<rfloor> = n - 1"
      by (simp add: floor_eq_iff)
    with 1 ev show ?thesis
      by (simp add: py_round_def Let_def)
  next
    case 2
    then have "\<lfloor>x\<rfloor> = n"
      by (simp add: floor_eq_iff)
    with 2 ev show ?thesis
      by (simp add: py_round_def Let_def)
  next
    case 3
    then show ?thesis
      by (rule py_round_eqI)
  qed
qed

lemma bitlen_7: "64 \<le> k \<Longrightarrow> k < 128 \<Longrightarrow> bitlen k = 7"
proof -
  assume a: "64 \<le> k" "k < 128"
  from a have "bitlen k \<le> 7"
    by (simp add: bitlen_le_iff_power)
  moreover from a have "\<not> bitlen k \<le> 6"
    by (simp add: bitlen_le_iff_power)
  ultimately show ?thesis
    by simp
qed

lemma binary64_range_6:
  assumes "64 \<le> x" "x < 128"
  shows "binary64 x = real_of_int (py_round (x * 2 ^ 46)) / 2 ^ 46"
proof -
  from assms have "64 \<le> \<lfloor>x\<rfloor>" "\<lfloor>x\<rfloor> < 128"
    by (simp_all add: le_floor_iff floor_less_iff)
  then have "bitlen \<lfloor>x\<rfloor> = 7"
    by (rule bitlen_7)
  with assms have "expo x = 6"
    by (simp add: expo_def abs_of_pos)
  with assms show ?thesis
    by (simp add: binary64_def Let_def power_int_minus divide_simps)
qed

lemma py_round_binary64_82:
  assumes lo: "163 / 2 \<le> x" and hi: "x \<le> 165 / 2"
  shows "py_round (binary64 x) = 82"
proof -
  from lo hi have r: "64 \<le> x" "x < 128"
    by simp_all
  have k1: "real_of_int (81 * 2 ^ 46 + 2 ^ 45) \<le> x * 2 ^ 46"
    using lo by simp
  have k2: "x * 2 ^ 46 \<le> real_of_int (82 * 2 ^ 46 + 2 ^ 45)"
    using hi by simp
  from py_round_ge [OF k1] have a: "163 / 2 \<le> binary64 x"
    unfolding binary64_range_6 [OF r] by (simp add: divide_simps)
  from py_round_le [OF k2] have b: "binary64 x \<le> 165 / 2"
    unfolding binary64_range_6 [OF r] by (simp add: divide_simps)
  from a b show ?thesis
    by (intro py_round_even_range) simp_all
qed

lemma sqrt_example_bounds:
  "163 / 2 \<le> sqrt (916259689813333 / 137438953472) \<and>
   sqrt (916259689813333 / 137438953472) \<le> 165 / 2"
proof
  show "163 / 2 \<le> sqrt (916259689813333 / 137438953472)"
    by (rule real_le_rsqrt) (simp add: power2_eq_square)
  show "sqrt (916259689813333 / 137438953472) \<le> 165 / 2"
    by (rule real_le_lsqrt) (simp_all add: power2_eq_square)
qed

lemma float_sqrt_example: "py_round (float_sqrt (916259689813333 / 137438953472)) = 82"
  unfolding float_sqrt_def using sqrt_example_bounds by (intro py_round_binary64_82) simp_all

lemma sqrt_3969: "sqrt (3969 / 4) = 63 / 2"
  by (simp add: real_sqrt_divide)

lemma b64_63: "binary64 (63 / 2) = 63 / 2"
  by code_simp

lemma float_sqrt_steady: "py_round (float_sqrt (3969 / 4)) = 32"
  unfolding float_sqrt_def sqrt_3969 b64_63 by code_simp

lemma exact_steady: "py_round (sqrt (120062 / 121)) = 31"
proof -
  have lo: "61 / 2 < sqrt (120062 / 121)"
    by (rule real_less_rsqrt) (simp add: power2_eq_square)
  have hi: "sqrt (120062 / 121) < 63 / 2"
    by (rule real_less_lsqrt) (simp_all add: power2_eq_square)
  from lo hi show ?thesis
    by (intro py_round_eqI) simp_all
qed

lemma float_of_int_exact: "\<bar>i\<bar> < 2 ^ 53 \<Longrightarrow> float_of_int i = real_of_int i"
  unfolding float_of_int_def by (rule binary64_of_int)

lemma int_truediv_round:
  "b \<noteq> 0 \<Longrightarrow> \<bar>a\<bar> < 2 ^ 52 \<Longrightarrow> \<bar>b\<bar> < 2 ^ 53 \<Longrightarrow>
   py_round (int_truediv a b) = py_round (real_of_int a / real_of_int b)"
  unfolding int_truediv_def by (rule round_quotient)

lemma float_div_round:
  assumes "b \<noteq> 0" and "\<bar>a\<bar> < 2 ^ 52" and "\<bar>b\<bar> < 2 ^ 53"
  shows "py_round (float_div (float_of_int a) (float_of_int b)) =
         py_round (real_of_int a / real_of_int b)"
proof -
  from assms(2) have "\<bar>a\<bar> < 2 ^ 53"
    by simp
  then have "float_of_int a = real_of_int a"
    by (rule float_of_int_exact)
  moreover from assms(3) have "float_of_int b = real_of_int b"
    by (rule float_of_int_exact)
  ultimately show ?thesis
    unfolding float_div_def using round_quotient [OF assms] by simp
qed

subsection \<open>The rows of one park in the joined relations\<close>

lemma scope_parks_alt:
  "scope_parks db year rid =
     filter (\<lambda>p. park_region_filter rid p \<and> park_rows db (park_code p) year \<noteq> []) (park db)"
  by (simp add: scope_parks_def park_region_filter_def)

lemma filter_key_distinct:
  "distinct (map f xs) \<Longrightarrow> filter (\<lambda>x. f x = v) xs = [] \<or> (\<exists>x. filter (\<lambda>x. f x = v) xs = [x])"
proof (induction xs)
  case Nil
  then show ?case by simp
next
  case (Cons a xs)
  show ?case
  proof (cases "f a = v")
    case True
    with Cons.prems have "\<forall>x \<in> set xs. f x \<noteq> v" by (auto simp: image_iff)
    then have "filter (\<lambda>x. f x = v) xs = []" by (simp add: filter_empty_conv)
    with True show ?thesis by simp
  next
    case False
    with Cons show ?thesis by simp
  qed
qed

lemma concat_map_Nil: "concat (map (\<lambda>x. []) xs) = []"
  by (induction xs) simp_all

lemma outer_join_region_single:
  assumes "wf_store db"
  shows "\<exists>rg. outer_join_region db p = [rg]"
proof (cases "park_region_id p")
  case None
  then show ?thesis by (simp add: outer_join_region_def concat_map_Nil)
next
  case (Some v)
  from assms have "distinct (map region_id (region db))"
    by (simp add: wf_store_def)
  from filter_key_distinct [OF this, of v]
  show ?thesis
    by (auto simp: outer_join_region_def Some filter_comprehension)
qed

lemma in_park_visit_region:
  "(p, m, r) \<in> set (park_visit_region db) \<longleftrightarrow>
     p \<in> set (park db) \<and> m \<in> set (monthly_visit db) \<and> mv_park_code m = park_code p \<and>
     r \<in> set (outer_join_region db p)"
  by (auto simp: park_visit_region_def park_join_visit_def split: if_splits)

lemma concat_map_single:
  "distinct xs \<Longrightarrow> x0 \<in> set xs \<Longrightarrow> (\<And>x. x \<in> set xs \<Longrightarrow> x \<noteq> x0 \<Longrightarrow> H x = []) \<Longrightarrow>
   concat (map H xs) = H x0"
proof (induction xs)
  case Nil
  then show ?case by simp
next
  case (Cons a xs)
  show ?case
  proof (cases "a = x0")
    case True
    with Cons.prems have "\<And>x. x \<in> set xs \<Longrightarrow> H x = []" by auto
    then have "concat (map H xs) = []" by simp
    with True show ?thesis by simp
  next
    case False
    with Cons.prems have "H a = []" "x0 \<in> set xs" "distinct xs" by auto
    with Cons show ?thesis by simp
  qed
qed

lemma filter_visits_of_park:
  "filter (\<lambda>(p, m). Q m) (concat (map (\<lambda>m. if mv_park_code m = c then [(p0, m)] else []) ms)) =
   map (\<lambda>m. (p0, m)) (filter (\<lambda>m. mv_park_code m = c \<and> Q m) ms)"
  by (induction ms) auto

lemma filter_park_join_visit:
  assumes wf: "wf_store db" and p0: "p0 \<in> set (park db)"
  shows "filter (\<lambda>(p, m). park_code p = park_code p0 \<and> Q m) (park_join_visit db) =
         map (\<lambda>m. (p0, m)) (filter (\<lambda>m. mv_park_code m = park_code p0 \<and> Q m) (monthly_visit db))"
proof -
  let ?P = "\<lambda>(p, m). park_code p = park_code p0 \<and> Q m"
  let ?H = "\<lambda>p. filter ?P (concat (map (\<lambda>m. if mv_park_code m = park_code p then [(p, m)] else [])
               (monthly_visit db)))"
  from wf have dc: "distinct (map park_code (park db))"
    by (simp add: wf_store_def)
  then have d: "distinct (park db)"
    by (simp add: distinct_map)
  have other: "?H p = []" if "p \<in> set (park db)" "p \<noteq> p0" for p
  proof -
    from that p0 dc have "park_code p \<noteq> park_code p0"
      by (meson distinct_map inj_on_def)
    then show ?thesis
      by (auto simp: filter_empty_conv split: if_splits)
  qed
  have "filter ?P (park_join_visit db) = concat (map ?H (park db))"
    by (simp add: park_join_visit_def filter_concat comp_def)
  also have "\<dots> = ?H p0"
    by (rule concat_map_single [OF d p0 other])
  also have "\<dots> = filter (\<lambda>(p, m). Q m) (concat (map (\<lambda>m. if mv_park_code m = park_code p0 then [(p0, m)] else [])
               (monthly_visit db)))"
    by (rule filter_cong) (auto split: if_splits)
  also have "\<dots> = map (\<lambda>m. (p0, m)) (filter (\<lambda>m. mv_park_code m = park_code p0 \<and> Q m) (monthly_visit db))"
    by (rule filter_visits_of_park)
  finally show ?thesis .
qed

lemma filter_concat_map_source:
  "filter (\<lambda>(p, m, r). P (p, m)) (concat (map (\<lambda>(p, m). map (\<lambda>r. (p, m, r)) (R p)) xs)) =
   concat (map (\<lambda>(p, m). map (\<lambda>r. (p, m, r)) (R p)) (filter P xs))"
  by (induction xs) (auto simp: filter_empty_conv)

lemma park_visit_region_concat:
  "park_visit_region db =
     concat (map (\<lambda>(p, m). map (\<lambda>r. (p, m, r)) (outer_join_region db p)) (park_join_visit db))"
  by (simp add: park_visit_region_def)

lemma filter_park_visit_region:
  assumes wf: "wf_store db" and p0: "p0 \<in> set (park db)" and rg: "outer_join_region db p0 = [rg0]"
  shows "filter (\<lambda>(p, m, r). park_code p = park_code p0 \<and> Q m) (park_visit_region db) =
         map (\<lambda>m. (p0, m, rg0)) (filter (\<lambda>m. mv_park_code m = park_code p0 \<and> Q m) (monthly_visit db))"
proof -
  have "filter (\<lambda>(p, m, r). park_code p = park_code p0 \<and> Q m) (park_visit_region db) =
        filter (\<lambda>(p, m, r). (\<lambda>(p, m). park_code p = park_code p0 \<and> Q m) (p, m)) (park_visit_region db)"
    by simp
  also have "\<dots> = concat (map (\<lambda>(p, m). map (\<lambda>r. (p, m, r)) (outer_join_region db p))
        (filter (\<lambda>(p, m). park_code p = park_code p0 \<and> Q m) (park_join_visit db)))"
    unfolding park_visit_region_concat by (rule filter_concat_map_source)
  also have "\<dots> = concat (map (\<lambda>(p, m). map (\<lambda>r. (p, m, r)) (outer_join_region db p))
        (map (\<lambda>m. (p0, m)) (filter (\<lambda>m. mv_park_code m = park_code p0 \<and> Q m) (monthly_visit db))))"
    by (simp only: filter_park_join_visit [OF wf p0])
  also have "\<dots> = map (\<lambda>m. (p0, m, rg0)) (filter (\<lambda>m. mv_park_code m = park_code p0 \<and> Q m) (monthly_visit db))"
    by (induction "monthly_visit db") (simp_all add: rg comp_def)
  finally show ?thesis .
qed

lemma sum_list_map_insort_key:
  "sum_list (map f (insort_key k x xs)) = f x + sum_list (map f xs)"
  for f :: "'a \<Rightarrow> int"
  by (induction xs) simp_all

lemma sum_list_map_sort_key:
  "sum_list (map f (sort_key k xs)) = sum_list (map f xs)"
  for f :: "'a \<Rightarrow> int"
  by (induction xs) (simp_all add: sum_list_map_insort_key)

lemma sum_list_non_null: "sum_list (non_null xs) = sum_list (map int_or_0 xs)"
  by (induction xs) (auto simp: non_null_def int_or_0_def split: option.splits)

lemma float_or_0_sql_sum: "float_or_0 (sql_sum xs) = float_of_int (sum_list (map int_or_0 xs))"
proof (cases "non_null xs = []")
  case True
  then have "sum_list (non_null xs) = 0" by simp
  with True show ?thesis
    by (simp add: sql_sum_def float_or_0_def float_of_int_def binary64_def flip: sum_list_non_null)
next
  case False
  then show ?thesis
    by (simp add: sql_sum_def float_or_0_def sum_list_non_null)
qed

lemma int_or_0_squared: "int_or_0 (squared x) = int_or_0 x * int_or_0 x"
  by (cases x) (simp_all add: squared_def int_or_0_def)

lemma sql_count_Some: "sql_count (map (\<lambda>x. Some (f x)) xs) = length xs"
  by (induction xs) (simp_all add: sql_count_def non_null_def)

lemma group_of_park:
  assumes wf: "wf_store db"
    and x0: "(p0, m0, rg0) \<in> set (filter (\<lambda>(p, m, r). mv_year m = y \<and> region_filter rid r \<and>
                 park_filter pc q p) (park_visit_region db))"
  shows "filter (\<lambda>x. park_region_year_key x = park_region_year_key (p0, m0, rg0))
           (filter (\<lambda>(p, m, r). mv_year m = y \<and> region_filter rid r \<and> park_filter pc q p)
              (park_visit_region db)) =
         map (\<lambda>m. (p0, m, rg0)) (park_rows db (park_code p0) y)"
proof -
  from x0 have mem: "(p0, m0, rg0) \<in> set (park_visit_region db)"
    and f0: "mv_year m0 = y" "region_filter rid rg0" "park_filter pc q p0"
    by auto
  from mem have p0: "p0 \<in> set (park db)" and r0: "rg0 \<in> set (outer_join_region db p0)"
    by (simp_all add: in_park_visit_region)
  from outer_join_region_single [OF wf, of p0] r0 have rg: "outer_join_region db p0 = [rg0]"
    by auto
  from wf have dc: "distinct (map park_code (park db))"
    by (simp add: wf_store_def)
  have "filter (\<lambda>x. park_region_year_key x = park_region_year_key (p0, m0, rg0))
           (filter (\<lambda>(p, m, r). mv_year m = y \<and> region_filter rid r \<and> park_filter pc q p)
              (park_visit_region db)) =
        filter (\<lambda>(p, m, r). park_code p = park_code p0 \<and> mv_year m = y) (park_visit_region db)"
    unfolding filter_filter
  proof (rule filter_cong [OF refl])
    fix x assume x: "x \<in> set (park_visit_region db)"
    obtain p m r where pmr: "x = (p, m, r)" by (cases x)
    from x have px: "p \<in> set (park db)" and rx: "r \<in> set (outer_join_region db p)"
      by (simp_all add: pmr in_park_visit_region)
    have same: "p = p0 \<and> r = rg0" if "park_code p = park_code p0"
    proof -
      from that px p0 dc have "p = p0"
        by (meson distinct_map inj_on_def)
      with rx rg show ?thesis by simp
    qed
    show "((case x of (p, m, r) \<Rightarrow> mv_year m = y \<and> region_filter rid r \<and> park_filter pc q p) \<and>
           park_region_year_key x = park_region_year_key (p0, m0, rg0)) =
          (case x of (p, m, r) \<Rightarrow> park_code p = park_code p0 \<and> mv_year m = y)"
      using same f0 by (auto simp: pmr park_region_year_key_def)
  qed
  also have "\<dots> = map (\<lambda>m. (p0, m, rg0)) (park_rows db (park_code p0) y)"
    unfolding park_rows_def by (rule filter_park_visit_region [OF wf p0 rg])
  finally show ?thesis .
qed

lemma in_visit_join_park:
  "(m, p) \<in> set (visit_join_park db) \<longleftrightarrow>
     m \<in> set (monthly_visit db) \<and> p \<in> set (park db) \<and> park_code p = mv_park_code m"
  by (auto simp: visit_join_park_def split: if_splits)

lemma parks_of_visit:
  assumes wf: "wf_store db" and p0: "p0 \<in> set (park db)" and c: "mv_park_code m = park_code p0"
  shows "concat (map (\<lambda>p. if park_code p = mv_park_code m then [(m, p)] else []) (park db)) =
         [(m, p0)]"
proof -
  from wf have dc: "distinct (map park_code (park db))"
    by (simp add: wf_store_def)
  then have d: "distinct (park db)"
    by (simp add: distinct_map)
  let ?H = "\<lambda>p. if park_code p = mv_park_code m then [(m, p)] else []"
  have other: "?H p = []" if "p \<in> set (park db)" "p \<noteq> p0" for p
  proof -
    from that p0 dc have "park_code p \<noteq> park_code p0"
      by (meson distinct_map inj_on_def)
    with c show ?thesis by simp
  qed
  have "concat (map ?H (park db)) = ?H p0"
    by (rule concat_map_single [OF d p0 other])
  with c show ?thesis by simp
qed

lemma filter_visit_join_park_aux:
  assumes wf: "wf_store db" and p0: "p0 \<in> set (park db)"
  shows "filter (\<lambda>(m, p). mv_park_code m = park_code p0 \<and> Q m)
           (concat (map (\<lambda>m. concat (map (\<lambda>p. if park_code p = mv_park_code m then [(m, p)] else [])
                                    (park db))) ms)) =
         map (\<lambda>m. (m, p0)) (filter (\<lambda>m. mv_park_code m = park_code p0 \<and> Q m) ms)"
proof (induction ms)
  case Nil
  then show ?case by simp
next
  case (Cons m ms)
  show ?case
  proof (cases "mv_park_code m = park_code p0")
    case True
    from parks_of_visit [OF wf p0 True] True Cons.IH show ?thesis
      by simp
  next
    case False
    then have "filter (\<lambda>(m, p). mv_park_code m = park_code p0 \<and> Q m)
        (concat (map (\<lambda>p. if park_code p = mv_park_code m then [(m, p)] else []) (park db))) = []"
      by (auto simp: filter_empty_conv split: if_splits)
    with False Cons.IH show ?thesis
      by simp
  qed
qed

lemma filter_visit_join_park:
  assumes wf: "wf_store db" and p0: "p0 \<in> set (park db)"
  shows "filter (\<lambda>(m, p). mv_park_code m = park_code p0 \<and> Q m) (visit_join_park db) =
         map (\<lambda>m. (m, p0)) (filter (\<lambda>m. mv_park_code m = park_code p0 \<and> Q m) (monthly_visit db))"
  unfolding visit_join_park_def by (rule filter_visit_join_park_aux [OF wf p0])

lemma group_of_visit_park:
  assumes wf: "wf_store db"
    and x0: "(m0, p0) \<in> set (filter (\<lambda>(m, p). mv_year m = y \<and> park_region_filter rid p)
                 (visit_join_park db))"
  shows "filter (\<lambda>(m, p). mv_park_code m = mv_park_code m0)
           (filter (\<lambda>(m, p). mv_year m = y \<and> park_region_filter rid p) (visit_join_park db)) =
         map (\<lambda>m. (m, p0)) (park_rows db (park_code p0) y)"
proof -
  from x0 have mem: "(m0, p0) \<in> set (visit_join_park db)"
    and f0: "mv_year m0 = y" "park_region_filter rid p0"
    by auto
  from mem have p0: "p0 \<in> set (park db)" and c0: "park_code p0 = mv_park_code m0"
    by (simp_all add: in_visit_join_park)
  from wf have dc: "distinct (map park_code (park db))"
    by (simp add: wf_store_def)
  have "filter (\<lambda>(m, p). mv_park_code m = mv_park_code m0)
           (filter (\<lambda>(m, p). mv_year m = y \<and> park_region_filter rid p) (visit_join_park db)) =
        filter (\<lambda>(m, p). mv_park_code m = park_code p0 \<and> mv_year m = y) (visit_join_park db)"
    unfolding filter_filter
  proof (rule filter_cong [OF refl])
    fix x assume x: "x \<in> set (visit_join_park db)"
    obtain m p where mp: "x = (m, p)" by (cases x)
    from x have px: "p \<in> set (park db)" and cx: "park_code p = mv_park_code m"
      by (simp_all add: mp in_visit_join_park)
    have same: "p = p0" if "mv_park_code m = park_code p0"
      using that px p0 dc cx by (metis distinct_map inj_on_def)
    show "((case x of (m, p) \<Rightarrow> mv_year m = y \<and> park_region_filter rid p) \<and>
           (case x of (m, p) \<Rightarrow> mv_park_code m = mv_park_code m0)) =
          (case x of (m, p) \<Rightarrow> mv_park_code m = park_code p0 \<and> mv_year m = y)"
      using same f0 c0 by (auto simp: mp)
  qed
  also have "\<dots> = map (\<lambda>m. (m, p0)) (park_rows db (park_code p0) y)"
    unfolding park_rows_def by (rule filter_visit_join_park [OF wf p0])
  finally show ?thesis .
qed

lemma py_sum_Inr:
  "py_sum xs = Inr t \<Longrightarrow> t = sum_list (map int_or_0 xs) \<and> None \<notin> set xs"
proof (induction xs arbitrary: t)
  case Nil
  then show ?case by simp
next
  case (Cons a xs)
  then show ?case
    by (cases a) (auto simp: int_or_0_def split: sum.splits)
qed

lemma py_sum_total: "None \<notin> set xs \<Longrightarrow> \<exists>t. py_sum xs = Inr t"
proof (induction xs)
  case Nil
  then show ?case by simp
next
  case (Cons a xs)
  then show ?case by (cases a) auto
qed

text \<open>The keys of the first query are the codes of the parks of the scope.\<close>

lemma scope_parks_distinct:
  assumes wf: "wf_store db"
  shows "distinct (map park_code (scope_parks db y rid))"
proof -
  from wf have "distinct (map park_code (park db))"
    by (simp add: wf_store_def)
  then show ?thesis
    unfolding scope_parks_alt by (rule distinct_map_filter)
qed

lemma annual_totals_keys:
  assumes wf: "wf_store db"
  shows "set (map (\<lambda>(m, p). mv_park_code m)
            (filter (\<lambda>(m, p). mv_year m = y \<and> park_region_filter rid p) (visit_join_park db))) =
         park_code ` set (scope_parks db y rid)"
proof (intro set_eqI iffI)
  fix c
  assume "c \<in> set (map (\<lambda>(m, p). mv_park_code m)
            (filter (\<lambda>(m, p). mv_year m = y \<and> park_region_filter rid p) (visit_join_park db)))"
  then obtain m p where mp: "(m, p) \<in> set (visit_join_park db)" "mv_year m = y"
      "park_region_filter rid p" "c = mv_park_code m"
    by auto
  from mp(1) have "m \<in> set (monthly_visit db)" "p \<in> set (park db)" "park_code p = mv_park_code m"
    by (simp_all add: in_visit_join_park)
  with mp have "m \<in> set (park_rows db (park_code p) y)" "p \<in> set (park db)" "park_code p = c"
    by (simp_all add: park_rows_def)
  with mp(3) have "p \<in> set (scope_parks db y rid)" "park_code p = c"
    by (auto simp: scope_parks_alt)
  then show "c \<in> park_code ` set (scope_parks db y rid)"
    by blast
next
  fix c
  assume "c \<in> park_code ` set (scope_parks db y rid)"
  then obtain p where p: "p \<in> set (park db)" "park_region_filter rid p"
      "park_rows db (park_code p) y \<noteq> []" "c = park_code p"
    by (auto simp: scope_parks_alt)
  from p(3) obtain m where "m \<in> set (park_rows db (park_code p) y)"
    by (cases "park_rows db (park_code p) y") auto
  then have m: "m \<in> set (monthly_visit db)" "mv_park_code m = park_code p" "mv_year m = y"
    by (simp_all add: park_rows_def)
  with p have "(m, p) \<in> set (filter (\<lambda>(m, p). mv_year m = y \<and> park_region_filter rid p)
      (visit_join_park db))"
    by (simp add: in_visit_join_park)
  then have "(\<lambda>(m, p). mv_park_code m) (m, p) \<in> set (map (\<lambda>(m, p). mv_park_code m)
            (filter (\<lambda>(m, p). mv_year m = y \<and> park_region_filter rid p) (visit_join_park db)))"
    unfolding set_map by (rule imageI)
  with m p show "c \<in> set (map (\<lambda>(m, p). mv_park_code m)
            (filter (\<lambda>(m, p). mv_year m = y \<and> park_region_filter rid p) (visit_join_park db)))"
    by simp
qed

lemma annual_totals_eq:
  assumes wf: "wf_store db"
  shows "annual_totals db y rid =
     map (\<lambda>c. annual_total_of db c y)
       (remdups (map (\<lambda>(m, p). mv_park_code m)
          (filter (\<lambda>(m, p). mv_year m = y \<and> park_region_filter rid p) (visit_join_park db))))"
proof -
  let ?rows = "filter (\<lambda>(m, p). mv_year m = y \<and> park_region_filter rid p) (visit_join_park db)"
  let ?key = "\<lambda>(m, p). mv_park_code m"
  have "annual_totals db y rid =
      map (\<lambda>c. sql_sum (map (\<lambda>(m, p). mv_total_visits m) (filter (\<lambda>x. ?key x = c) ?rows)))
        (remdups (map ?key ?rows))"
    by (simp add: annual_totals_def sum_groups_def group_by_def comp_def)
  also have "\<dots> = map (\<lambda>c. annual_total_of db c y) (remdups (map ?key ?rows))"
  proof (rule map_cong [OF refl])
    fix c assume "c \<in> set (remdups (map ?key ?rows))"
    then obtain m0 p0 where x0: "(m0, p0) \<in> set ?rows" and c: "c = mv_park_code m0"
      by auto
    from x0 have c0: "park_code p0 = mv_park_code m0"
      by (simp add: in_visit_join_park)
    have "filter (\<lambda>x. ?key x = c) ?rows = filter (\<lambda>(m, p). mv_park_code m = mv_park_code m0) ?rows"
      by (rule filter_cong) (auto simp: c)
    also have "\<dots> = map (\<lambda>m. (m, p0)) (park_rows db (park_code p0) y)"
      by (rule group_of_visit_park [OF wf x0])
    finally have "map (\<lambda>(m, p). mv_total_visits m) (filter (\<lambda>x. ?key x = c) ?rows) =
        map mv_total_visits (park_rows db c y)"
      by (simp add: comp_def c c0)
    then show "sql_sum (map (\<lambda>(m, p). mv_total_visits m) (filter (\<lambda>x. ?key x = c) ?rows)) =
        annual_total_of db c y"
      by (simp add: annual_total_of_def)
  qed
  finally show ?thesis .
qed

lemma in_outer_join_region:
  "rg \<in> set (outer_join_region db p) \<longleftrightarrow>
     ((\<forall>reg \<in> set (region db). Some (region_id reg) \<noteq> park_region_id p) \<and> rg = None) \<or>
     (\<exists>reg \<in> set (region db). Some (region_id reg) = park_region_id p \<and> rg = Some reg)"
proof (cases "filter (\<lambda>r. Some (region_id r) = park_region_id p) (region db)")
  case Nil
  then have "\<forall>reg \<in> set (region db). Some (region_id reg) \<noteq> park_region_id p"
    by (simp add: filter_empty_conv)
  with Nil show ?thesis
    by (auto simp: outer_join_region_def filter_comprehension)
next
  case (Cons a as)
  then have "outer_join_region db p =
      map Some (filter (\<lambda>r. Some (region_id r) = park_region_id p) (region db))"
    by (simp add: outer_join_region_def filter_comprehension)
  then have "set (outer_join_region db p) =
      Some ` {reg \<in> set (region db). Some (region_id reg) = park_region_id p}"
    by simp
  moreover from Cons have "a \<in> set (filter (\<lambda>r. Some (region_id r) = park_region_id p) (region db))"
    by simp
  then have "\<exists>reg \<in> set (region db). Some (region_id reg) = park_region_id p"
    by auto
  ultimately show ?thesis
    by auto
qed

lemma region_filter_iff:
  assumes wf: "wf_store db" and p: "p \<in> set (park db)" and rg: "rg \<in> set (outer_join_region db p)"
  shows "region_filter rid rg \<longleftrightarrow> park_region_filter rid p"
proof (cases rid)
  case None
  then show ?thesis by (simp add: region_filter_def park_region_filter_def)
next
  case (Some x)
  from wf p have fk: "\<And>v. park_region_id p = Some v \<Longrightarrow> v \<in> region_id ` set (region db)"
    by (auto simp: wf_store_def list_all_iff split: option.splits)
  show ?thesis
  proof
    assume "region_filter rid rg"
    then obtain reg where reg: "rg = Some reg" "region_id reg = x"
      by (auto simp: region_filter_def Some split: option.splits)
    with rg have "Some (region_id reg) = park_region_id p"
      by (auto simp: in_outer_join_region)
    with reg have "park_region_id p = Some x"
      by simp
    then show "park_region_filter rid p"
      by (simp add: park_region_filter_def Some)
  next
    assume "park_region_filter rid p"
    then have pr: "park_region_id p = Some x"
      by (simp add: park_region_filter_def Some)
    from fk [OF pr] obtain reg0 where "reg0 \<in> set (region db)" "region_id reg0 = x"
      by auto
    with pr rg obtain reg where "rg = Some reg" "Some (region_id reg) = park_region_id p"
      by (auto simp: in_outer_join_region)
    with pr show "region_filter rid rg"
      by (simp add: region_filter_def Some)
  qed
qed

subsection \<open>Empty results: NotFound in some handlers, the empty list in others\<close>

lemma monthly_visits_not_found:
  assumes "\<not> (\<exists>m \<in> set (monthly_visit db). mv_park_code m = upper c \<and> mv_year m = y)"
  shows "park_monthly_visits_with_threshold db c y t =
           Inl (HTTPException 404 ''No visits for that park/year'')"
proof -
  from assms have "filter (\<lambda>m. mv_park_code m = upper c \<and> mv_year m = y) (monthly_visit db) = []"
    by (auto simp: filter_empty_conv)
  then show ?thesis
    by (simp add: park_monthly_visits_with_threshold_def monthly_stmt_def order_by_def Let_def)
qed

lemma month_change_not_found:
  assumes "\<not> (\<exists>m \<in> set (monthly_visit db). mv_park_code m = upper c \<and> mv_year m = y)"
  shows "month_to_month_change db c y = Inl (HTTPException 404 ''No visits for that park/year'')"
proof -
  from assms have h: "[(m1, m2). m1 \<leftarrow> monthly_visit db, m2 \<leftarrow> previous_month_rows db m1,
          mv_park_code m1 = upper c \<and> mv_year m1 = y] = []"
    by auto
  show ?thesis
    unfolding month_to_month_change_def month_change_stmt_def Let_def h
    by (simp add: order_by_def)
qed

lemma variability_not_found:
  assumes "filter (\<lambda>(p, m, r). mv_year m = y \<and> region_filter (map_option upper g) r \<and>
              park_filter (map_option upper pc) q p) (park_visit_region db) = []"
  shows "park_visit_variability db y g pc q l = Inl (HTTPException 404 ''No data for that year/filters'')"
  using assms by (simp add: park_visit_variability_def variability_stmt_def group_by_Nil Let_def)

lemma annual_visits_empty:
  assumes "filter (\<lambda>(p, m, r). mv_year m = y \<and> region_filter (map_option upper g) r \<and>
              park_filter (map_option upper pc) q p) (park_visit_region db) = []"
  shows "annual_visits_by_park db y g pc q mt l = Inr []"
  using assms
  by (simp add: annual_visits_by_park_def annual_visits_stmt_def sum_groups_Nil Let_def
      having_min_total_def order_by_desc_Nil sql_limit_def split: option.splits)

lemma growth_not_found:
  assumes "s < e" and "growth_stmt db (upper g) s e = []"
  shows "growth_by_region_over_time db g s e = Inl (HTTPException 404 ''No data for that region/years'')"
  using assms by (simp add: growth_by_region_over_time_def Let_def)

lemma above_average_not_found:
  assumes "filter (\<lambda>(m, p). mv_year m = y \<and> park_region_filter (map_option upper g) p)
             (visit_join_park db) = []"
  shows "parks_above_system_average db y g pc q = Inl (HTTPException 404 ''No data for that year/filters'')"
  using assms by (simp add: parks_above_system_average_def annual_totals_def sum_groups_Nil Let_def)

lemma details_not_found:
  assumes "\<not> (\<exists>p \<in> set (park db). park_code p = upper c)"
  shows "get_park_details db c = Inl (HTTPException 404 (''Park '' @ upper c @ '' not found''))"
proof -
  from assms have "park_detail_stmt db (upper c) = []"
    by (auto simp: park_detail_stmt_def)
  then show ?thesis
    by (simp add: get_park_details_def Let_def)
qed

lemma list_handlers_total:
  "(\<exists>out. annual_visits_by_park db y g pc q mt l = Inr out) \<and>
   (\<exists>out. peak_season_above_threshold db y t g = Inr out) \<and>
   (\<exists>out. top_parks_by_year sl db y l g q = Inr out) \<and>
   (\<exists>out. annual_visits_by_region db y g = Inr out) \<and>
   (s \<le> e \<longrightarrow> (\<exists>out. average_monthly_visits_by_park db s e g pc q l = Inr out)) \<and>
   (allowed mname \<noteq> None \<longrightarrow> (\<exists>out. parks_by_metric db y mname g l = Inr out))"
  by (auto simp: annual_visits_by_park_def peak_season_above_threshold_def top_parks_by_year_def
      annual_visits_by_region_def average_monthly_visits_by_park_def parks_by_metric_def Let_def)

lemma group_of_park_annual:
  assumes wf: "wf_store db"
    and x0: "(p0, m0, rg0) \<in> set (filter (\<lambda>(p, m, r). mv_year m = y \<and> region_filter rid r \<and>
                 park_filter pc q p) (park_visit_region db))"
  shows "filter (\<lambda>x. annual_key x = annual_key (p0, m0, rg0))
           (filter (\<lambda>(p, m, r). mv_year m = y \<and> region_filter rid r \<and> park_filter pc q p)
              (park_visit_region db)) =
         map (\<lambda>m. (p0, m, rg0)) (park_rows db (park_code p0) y)"
proof -
  from x0 have mem: "(p0, m0, rg0) \<in> set (park_visit_region db)"
    and f0: "mv_year m0 = y" "region_filter rid rg0" "park_filter pc q p0"
    by auto
  from mem have p0: "p0 \<in> set (park db)" and r0: "rg0 \<in> set (outer_join_region db p0)"
    by (simp_all add: in_park_visit_region)
  from outer_join_region_single [OF wf, of p0] r0 have rg: "outer_join_region db p0 = [rg0]"
    by auto
  from wf have dc: "distinct (map park_code (park db))"
    by (simp add: wf_store_def)
  have "filter (\<lambda>x. annual_key x = annual_key (p0, m0, rg0))
           (filter (\<lambda>(p, m, r). mv_year m = y \<and> region_filter rid r \<and> park_filter pc q p)
              (park_visit_region db)) =
        filter (\<lambda>(p, m, r). park_code p = park_code p0 \<and> mv_year m = y) (park_visit_region db)"
    unfolding filter_filter
  proof (rule filter_cong [OF refl])
    fix x assume x: "x \<in> set (park_visit_region db)"
    obtain p m r where pmr: "x = (p, m, r)" by (cases x)
    from x have px: "p \<in> set (park db)" and rx: "r \<in> set (outer_join_region db p)"
      by (simp_all add: pmr in_park_visit_region)
    have same: "p = p0 \<and> r = rg0" if "park_code p = park_code p0"
    proof -
      from that px p0 dc have "p = p0"
        by (meson distinct_map inj_on_def)
      with rx rg show ?thesis by simp
    qed
    show "((case x of (p, m, r) \<Rightarrow> mv_year m = y \<and> region_filter rid r \<and> park_filter pc q p) \<and>
           annual_key x = annual_key (p0, m0, rg0)) =
          (case x of (p, m, r) \<Rightarrow> park_code p = park_code p0 \<and> mv_year m = y)"
      using same f0 by (auto simp: pmr annual_key_def)
  qed
  also have "\<dots> = map (\<lambda>m. (p0, m, rg0)) (park_rows db (park_code p0) y)"
    unfolding park_rows_def by (rule filter_park_visit_region [OF wf p0 rg])
  finally show ?thesis .
qed

lemma annual_visits_below_min_total:
  assumes wf: "wf_store db"
    and none: "\<forall>p \<in> set (park db). \<forall>rg \<in> set (outer_join_region db p).
        region_filter (map_option upper g) rg \<and> park_filter (map_option upper pc) q p \<and>
        park_rows db (park_code p) y \<noteq> [] \<longrightarrow>
          (case mt of None \<Rightarrow> False
           | Some v \<Rightarrow> \<not> sql_ge (annual_total_of db (park_code p) y) v)"
  shows "annual_visits_by_park db y g pc q mt l = Inr []"
proof -
  let ?F = "\<lambda>(p, m, r). mv_year m = y \<and> region_filter (map_option upper g) r \<and>
              park_filter (map_option upper pc) q p"
  let ?joined = "filter ?F (park_visit_region db)"
  let ?groups = "sum_groups annual_key total_of ?joined"
  have "having_min_total mt ?groups = []"
  proof (rule ccontr)
    assume "having_min_total mt ?groups \<noteq> []"
    then have kt0: "hd (having_min_total mt ?groups) \<in> set (having_min_total mt ?groups)"
      by (rule hd_in_set)
    obtain k t where "hd (having_min_total mt ?groups) = (k, t)"
      by (cases "hd (having_min_total mt ?groups)")
    with kt0 have kt: "(k, t) \<in> set (having_min_total mt ?groups)"
      by simp
    then have grp: "(k, t) \<in> set ?groups" and hv: "\<forall>v. mt = Some v \<longrightarrow> sql_ge t v"
      by (auto simp: having_min_total_def split: option.splits)
    from grp obtain x0 where x0: "x0 \<in> set ?joined" and k: "k = annual_key x0"
      and t: "t = sql_sum (map total_of (filter (\<lambda>x. annual_key x = k) ?joined))"
      by (auto simp: in_sum_groups)
    obtain p0 m0 rg0 where pmr: "x0 = (p0, m0, rg0)" by (cases x0)
    from x0 have mem: "p0 \<in> set (park db)" "m0 \<in> set (monthly_visit db)"
        "mv_park_code m0 = park_code p0" "rg0 \<in> set (outer_join_region db p0)"
      and f: "mv_year m0 = y" "region_filter (map_option upper g) rg0"
        "park_filter (map_option upper pc) q p0"
      by (auto simp: pmr in_park_visit_region)
    from mem f have "m0 \<in> set (park_rows db (park_code p0) y)"
      by (simp add: park_rows_def)
    then have ne: "park_rows db (park_code p0) y \<noteq> []"
      by auto
    from x0 have g: "filter (\<lambda>x. annual_key x = k) ?joined =
        map (\<lambda>m. (p0, m, rg0)) (park_rows db (park_code p0) y)"
      using group_of_park_annual [OF wf, of p0 m0 rg0 y "map_option upper g" "map_option upper pc" q]
      by (simp add: pmr k)
    have t': "t = annual_total_of db (park_code p0) y"
      unfolding t g by (simp add: annual_total_of_def comp_def total_of_def)
    from none mem(1) mem(4) f(2) f(3) ne
    have "case mt of None \<Rightarrow> False
          | Some v \<Rightarrow> \<not> sql_ge (annual_total_of db (park_code p0) y) v"
      by blast
    with hv t' show False
      by (cases mt) auto
  qed
  then show ?thesis
    by (simp add: annual_visits_by_park_def annual_visits_stmt_def Let_def order_by_desc_Nil
        sql_limit_def)
qed

lemma sample_2020_min_total:
  "\<forall>p \<in> set (park sample_store). \<forall>rg \<in> set (outer_join_region sample_store p).
        region_filter (map_option upper None) rg \<and> park_filter (map_option upper None) None p \<and>
        park_rows sample_store (park_code p) 2020 \<noteq> [] \<longrightarrow>
          (case Some 1000 of None \<Rightarrow> False
           | Some v \<Rightarrow> \<not> sql_ge (annual_total_of sample_store (park_code p) 2020) v)"
  by code_simp

lemma sample_2020_scope: "map park_code (scope_parks sample_store 2020 None) = [''GRCA'', ''ZION'', ''YOSE'']"
  by code_simp

lemma sample_1999_a: "\<not> (\<exists>m \<in> set (monthly_visit sample_store). mv_park_code m = upper ''grca'' \<and> mv_year m = 1999)"
  by (simp add: sample_defs)

lemma sample_1999_b: "filter (\<lambda>(p, m, r). mv_year m = 1999 \<and> region_filter (map_option upper None) r \<and>
              park_filter (map_option upper None) None p) (park_visit_region sample_store) = []"
  by code_simp

text \<open>
  Claim C6 as stated fails: for a year without any stored row, \<open>annual_visits_by_park\<close>
  returns the empty list, not a NotFound failure.
\<close>

theorem annual_visits_empty_not_404:
  "1999 \<notin> set (map mv_year (monthly_visit sample_store)) \<and>
   annual_visits_by_park sample_store 1999 None None None None 100 = Inr []"
  using annual_visits_empty [OF sample_1999_b, of None 100]
  by (simp add: sample_defs)

text \<open>
  Claim C6, amended. The monthly series, the month-to-month change, the variability, the
  growth, the above-average handler (when its scope has no row) and the park details fail
  with status 404 and a descriptive message when no row matches their filters. The
  annual totals by park, the peak-season, top-N and region-total handlers always return
  a list, as do the average-monthly handler for a valid year range and the metric handler
  for an allowed metric; \<open>annual_visits_by_park\<close> returns the empty list when no row
  matches its year, region, park-code and name filters, and also, for a well-formed store,
  when every park that matches them has an annual total below \<open>min_total\<close>.
\<close>

theorem not_found_convention:
  "(\<not> (\<exists>m \<in> set (monthly_visit db). mv_park_code m = upper c \<and> mv_year m = y) \<longrightarrow>
      park_monthly_visits_with_threshold db c y t =
        Inl (HTTPException 404 ''No visits for that park/year'') \<and>
      month_to_month_change db c y = Inl (HTTPException 404 ''No visits for that park/year'')) \<and>
   (filter (\<lambda>(p, m, r). mv_year m = y \<and> region_filter (map_option upper g) r \<and>
              park_filter (map_option upper pc) q p) (park_visit_region db) = [] \<longrightarrow>
      park_visit_variability db y g pc q l =
        Inl (HTTPException 404 ''No data for that year/filters'') \<and>
      annual_visits_by_park db y g pc q mt l = Inr []) \<and>
   (wf_store db \<and>
    (\<forall>p \<in> set (park db). \<forall>rg \<in> set (outer_join_region db p).
        region_filter (map_option upper g) rg \<and> park_filter (map_option upper pc) q p \<and>
        park_rows db (park_code p) y \<noteq> [] \<longrightarrow>
          (case mt of None \<Rightarrow> False
           | Some v \<Rightarrow> \<not> sql_ge (annual_total_of db (park_code p) y) v)) \<longrightarrow>
      annual_visits_by_park db y g pc q mt l = Inr []) \<and>
   (s < e \<and> growth_stmt db (upper c) s e = [] \<longrightarrow>
      growth_by_region_over_time db c s e =
        Inl (HTTPException 404 ''No data for that region/years'')) \<and>
   (filter (\<lambda>(m, p). mv_year m = y \<and> park_region_filter (map_option upper g) p)
       (visit_join_park db) = [] \<longrightarrow>
      parks_above_system_average db y g pc q =
        Inl (HTTPException 404 ''No data for that year/filters'')) \<and>
   (\<not> (\<exists>p \<in> set (park db). park_code p = upper c) \<longrightarrow>
      get_park_details db c = Inl (HTTPException 404 (''Park '' @ upper c @ '' not found''))) \<and>
   (\<exists>out. annual_visits_by_park db y g pc q mt l = Inr out) \<and>
   (\<exists>out. peak_season_above_threshold db y t g = Inr out) \<and>
   (\<exists>out. top_parks_by_year sl db y l g q = Inr out) \<and>
   (\<exists>out. annual_visits_by_region db y g = Inr out) \<and>
   (s \<le> e \<longrightarrow> (\<exists>out. average_monthly_visits_by_park db s e g pc q l = Inr out)) \<and>
   (allowed mname \<noteq> None \<longrightarrow> (\<exists>out. parks_by_metric db y mname g l = Inr out))"
  using monthly_visits_not_found [of db c y t] month_change_not_found [of db c y]
    variability_not_found [of y g pc q db l] annual_visits_empty [of y g pc q db mt l]
    growth_not_found [of s e db c] above_average_not_found [of y g db pc q]
    details_not_found [of db c] list_handlers_total [of db y g pc q mt l t sl s e mname]
    annual_visits_below_min_total [of db g pc q y mt l]
  by blast

theorem not_found_convention_witness:
  "park_monthly_visits_with_threshold sample_store ''grca'' 1999 0 =
     Inl (HTTPException 404 ''No visits for that park/year'') \<and>
   month_to_month_change sample_store ''grca'' 1999 =
     Inl (HTTPException 404 ''No visits for that park/year'') \<and>
   park_visit_variability sample_store 1999 None None None 10 =
     Inl (HTTPException 404 ''No data for that year/filters'') \<and>
   annual_visits_by_park sample_store 1999 None None None None 10 = Inr [] \<and>
   map park_code (scope_parks sample_store 2020 None) = [''GRCA'', ''ZION'', ''YOSE''] \<and>
   annual_visits_by_park sample_store 2020 None None None (Some 1000) 10 = Inr []"
proof -
  from not_found_convention [of sample_store "''grca''" 1999 0 None None None 10 None 2020 2021
      lower "''tent_campers''"] sample_1999_a sample_1999_b
  have a: "park_monthly_visits_with_threshold sample_store ''grca'' 1999 0 =
     Inl (HTTPException 404 ''No visits for that park/year'') \<and>
   month_to_month_change sample_store ''grca'' 1999 =
     Inl (HTTPException 404 ''No visits for that park/year'') \<and>
   park_visit_variability sample_store 1999 None None None 10 =
     Inl (HTTPException 404 ''No data for that year/filters'') \<and>
   annual_visits_by_park sample_store 1999 None None None None 10 = Inr []"
    by simp
  from not_found_convention [of sample_store "''grca''" 2020 0 None None None 10 "Some 1000"
      2020 2021 lower "''tent_campers''"] sample_store_wf sample_2020_min_total
  have b: "annual_visits_by_park sample_store 2020 None None None (Some 1000) 10 = Inr []"
    by blast
  from a b sample_2020_scope show ?thesis
    by blast
qed

subsection \<open>Q9: growth percent, inner join and ordering\<close>

lemma growth_sorted:
  assumes run: "growth_by_region_over_time db g s e = Inr out"
  shows "sorted_wrt (\<lambda>a b. gr_growth_percent a \<ge> gr_growth_percent b) out"
  using run
  by (auto simp: growth_by_region_over_time_def Let_def sorted_order_by_desc split: if_splits)

lemma annual_stmt_group:
  assumes wf: "wf_store db" and p0: "p0 \<in> set (park db)" and rg: "park_region_id p0 = Some rid"
    and yr: "yr = s \<or> yr = e"
  shows "filter (\<lambda>x. (case x of (m, p) \<Rightarrow> (mv_park_code m, mv_year m)) = (park_code p0, yr))
           (filter (\<lambda>(m, p). park_region_id p = Some rid \<and> mv_year m \<in> set [s, e])
              (visit_join_park db)) =
         map (\<lambda>m. (m, p0)) (park_rows db (park_code p0) yr)"
proof -
  from wf have dc: "distinct (map park_code (park db))"
    by (simp add: wf_store_def)
  have "filter (\<lambda>x. (case x of (m, p) \<Rightarrow> (mv_park_code m, mv_year m)) = (park_code p0, yr))
           (filter (\<lambda>(m, p). park_region_id p = Some rid \<and> mv_year m \<in> set [s, e])
              (visit_join_park db)) =
        filter (\<lambda>(m, p). mv_park_code m = park_code p0 \<and> mv_year m = yr) (visit_join_park db)"
    unfolding filter_filter
  proof (rule filter_cong [OF refl])
    fix x assume x: "x \<in> set (visit_join_park db)"
    obtain m p where mp: "x = (m, p)" by (cases x)
    from x have px: "p \<in> set (park db)" and cx: "park_code p = mv_park_code m"
      by (simp_all add: mp in_visit_join_park)
    have same: "p = p0" if "mv_park_code m = park_code p0"
      using that px p0 dc cx by (metis distinct_map inj_on_def)
    show "((case x of (m, p) \<Rightarrow> park_region_id p = Some rid \<and> mv_year m \<in> set [s, e]) \<and>
           (case x of (m, p) \<Rightarrow> (mv_park_code m, mv_year m)) = (park_code p0, yr)) =
          (case x of (m, p) \<Rightarrow> mv_park_code m = park_code p0 \<and> mv_year m = yr)"
      using same rg yr by (auto simp: mp)
  qed
  also have "\<dots> = map (\<lambda>m. (m, p0)) (park_rows db (park_code p0) yr)"
    unfolding park_rows_def by (rule filter_visit_join_park [OF wf p0])
  finally show ?thesis .
qed

lemma in_annual_stmt_iff:
  assumes wf: "wf_store db"
  shows "((c, yr), t) \<in> set (annual_stmt db rid s e) \<longleftrightarrow>
           (yr = s \<or> yr = e) \<and>
           (\<exists>p \<in> set (park db). park_code p = c \<and> park_region_id p = Some rid) \<and>
           park_rows db c yr \<noteq> [] \<and> t = annual_total_of db c yr"
    (is "?L \<longleftrightarrow> ?R")
proof
  let ?rows = "filter (\<lambda>(m, p). park_region_id p = Some rid \<and> mv_year m \<in> set [s, e])
                 (visit_join_park db)"
  assume ?L
  then obtain x0 where x0: "x0 \<in> set ?rows"
    and k: "(c, yr) = (case x0 of (m, p) \<Rightarrow> (mv_park_code m, mv_year m))"
    and t: "t = sql_sum (map (\<lambda>(m, p). mv_total_visits m)
               (filter (\<lambda>x. (case x of (m, p) \<Rightarrow> (mv_park_code m, mv_year m)) = (c, yr)) ?rows))"
    by (auto simp: annual_stmt_def in_sum_groups)
  obtain m0 p0 where mp: "x0 = (m0, p0)" by (cases x0)
  from x0 have mem: "m0 \<in> set (monthly_visit db)" "p0 \<in> set (park db)"
      "park_code p0 = mv_park_code m0"
    and f: "park_region_id p0 = Some rid" "mv_year m0 = s \<or> mv_year m0 = e"
    by (auto simp: mp in_visit_join_park)
  from k have c: "c = park_code p0" and y: "yr = mv_year m0"
    by (simp_all add: mp mem)
  from f y have yr: "yr = s \<or> yr = e"
    by simp
  from mem c y have "m0 \<in> set (park_rows db c yr)"
    by (simp add: park_rows_def)
  then have ne: "park_rows db c yr \<noteq> []"
    by auto
  have "t = annual_total_of db c yr"
    unfolding t c annual_stmt_group [OF wf mem(2) f(1) yr]
    by (simp add: annual_total_of_def comp_def)
  with yr ne mem(2) f(1) c show ?R
    by blast
next
  let ?rows = "filter (\<lambda>(m, p). park_region_id p = Some rid \<and> mv_year m \<in> set [s, e])
                 (visit_join_park db)"
  assume ?R
  then obtain p0 where yr: "yr = s \<or> yr = e" and p0: "p0 \<in> set (park db)"
    and c: "park_code p0 = c" and rg: "park_region_id p0 = Some rid"
    and ne: "park_rows db c yr \<noteq> []" and t: "t = annual_total_of db c yr"
    by blast
  from ne have "hd (park_rows db c yr) \<in> set (park_rows db c yr)"
    by (rule hd_in_set)
  then obtain m0 where "m0 \<in> set (park_rows db c yr)"
    by blast
  then have m0: "m0 \<in> set (monthly_visit db)" "mv_park_code m0 = c" "mv_year m0 = yr"
    by (simp_all add: park_rows_def)
  from m0 p0 c rg yr have x0: "(m0, p0) \<in> set ?rows"
    by (auto simp: in_visit_join_park)
  have "(case (m0, p0) of (m, p) \<Rightarrow> (mv_park_code m, mv_year m)) = (c, yr)"
    by (simp add: m0)
  with x0 have key: "(c, yr) \<in> (\<lambda>(m, p). (mv_park_code m, mv_year m)) ` set ?rows"
    by (metis (no_types, lifting) imageI)
  have "t = sql_sum (map (\<lambda>(m, p). mv_total_visits m)
               (filter (\<lambda>x. (case x of (m, p) \<Rightarrow> (mv_park_code m, mv_year m)) = (c, yr)) ?rows))"
    unfolding t c [symmetric] annual_stmt_group [OF wf p0 rg yr]
    by (simp add: annual_total_of_def comp_def)
  with key show ?L
    unfolding annual_stmt_def by (simp only: in_sum_groups simp_thms)
qed

lemma in_growth_stmt_iff:
  "(p, r, st, et) \<in> set (growth_stmt db rid s e) \<longleftrightarrow>
     p \<in> set (park db) \<and> r \<in> set (region db) \<and> Some (region_id r) = park_region_id p \<and>
     ((park_code p, s), st) \<in> set (annual_stmt db rid s e) \<and>
     ((park_code p, e), et) \<in> set (annual_stmt db rid s e) \<and> region_id r = rid"
  by (auto simp: growth_stmt_def split: if_splits)

lemma growth_stmt_rows:
  assumes wf: "wf_store db" and se: "s < e"
  shows "(p, r, st, et) \<in> set (growth_stmt db rid s e) \<longleftrightarrow>
     p \<in> set (growth_parks db rid s e) \<and> r \<in> set (region db) \<and> region_id r = rid \<and>
     st = annual_total_of db (park_code p) s \<and> et = annual_total_of db (park_code p) e"
  unfolding in_growth_stmt_iff in_annual_stmt_iff [OF wf] growth_parks_def
  by auto

lemma growth_stmt_empty_iff:
  assumes wf: "wf_store db" and se: "s < e"
  shows "growth_stmt db rid s e = [] \<longleftrightarrow> growth_parks db rid s e = []"
proof
  assume e: "growth_stmt db rid s e = []"
  show "growth_parks db rid s e = []"
  proof (rule ccontr)
    assume "growth_parks db rid s e \<noteq> []"
    then have "hd (growth_parks db rid s e) \<in> set (growth_parks db rid s e)"
      by (rule hd_in_set)
    then obtain p where p: "p \<in> set (growth_parks db rid s e)"
      by blast
    then have pp: "p \<in> set (park db)" and pr: "park_region_id p = Some rid"
      by (simp_all add: growth_parks_def)
    from wf pp pr have "rid \<in> region_id ` set (region db)"
      by (auto simp: wf_store_def list_all_iff split: option.splits)
    then obtain r where "r \<in> set (region db)" "region_id r = rid"
      by auto
    with p have "(p, r, annual_total_of db (park_code p) s, annual_total_of db (park_code p) e)
        \<in> set (growth_stmt db rid s e)"
      by (simp only: growth_stmt_rows [OF wf se] simp_thms)
    with e show False
      by simp
  qed
next
  assume e: "growth_parks db rid s e = []"
  show "growth_stmt db rid s e = []"
  proof (rule ccontr)
    assume "growth_stmt db rid s e \<noteq> []"
    then have h: "hd (growth_stmt db rid s e) \<in> set (growth_stmt db rid s e)"
      by (rule hd_in_set)
    obtain p r st et where "hd (growth_stmt db rid s e) = (p, r, st, et)"
      by (metis prod.exhaust)
    with h have "(p, r, st, et) \<in> set (growth_stmt db rid s e)"
      by simp
    then have "p \<in> set (growth_parks db rid s e)"
      by (simp only: growth_stmt_rows [OF wf se])
    with e show False
      by simp
  qed
qed

lemma growth_out_fields:
  "gr_park_code (growth_out s e (p, r, st, et)) = park_code p \<and>
   gr_start_total (growth_out s e (p, r, st, et)) = int_or_0 st \<and>
   gr_end_total (growth_out s e (p, r, st, et)) = int_or_0 et \<and>
   gr_growth_percent (growth_out s e (p, r, st, et)) = growth_pct (int_or_0 st) (int_or_0 et)"
  by (simp add: growth_out_def Let_def)

lemma growth_records:
  assumes wf: "wf_store db" and se: "s < e"
    and run: "growth_by_region_over_time db g s e = Inr out"
  shows "set (map gr_park_code out) = park_code ` set (growth_parks db (upper g) s e) \<and>
         (\<forall>r \<in> set out.
            gr_start_total r = int_or_0 (annual_total_of db (gr_park_code r) s) \<and>
            gr_end_total r = int_or_0 (annual_total_of db (gr_park_code r) e) \<and>
            gr_growth_percent r = growth_pct (gr_start_total r) (gr_end_total r))"
proof -
  let ?rows = "growth_stmt db (upper g) s e"
  from run have ne: "?rows \<noteq> []"
    and out: "out = order_by_desc gr_growth_percent (map (growth_out s e) ?rows)"
    by (auto simp: growth_by_region_over_time_def Let_def split: if_splits)
  have s1: "set (map gr_park_code out) = park_code ` set (growth_parks db (upper g) s e)"
  proof (intro set_eqI iffI)
    fix c assume "c \<in> set (map gr_park_code out)"
    then obtain x where x: "x \<in> set ?rows" and c: "c = gr_park_code (growth_out s e x)"
      unfolding out by (auto simp: set_order_by_desc)
    obtain p r st et where pr: "x = (p, r, st, et)"
      by (metis prod.exhaust)
    from x have "p \<in> set (growth_parks db (upper g) s e)"
      unfolding pr by (simp only: growth_stmt_rows [OF wf se])
    moreover from c have "c = park_code p"
      by (simp add: pr growth_out_fields)
    ultimately show "c \<in> park_code ` set (growth_parks db (upper g) s e)"
      by blast
  next
    fix c assume "c \<in> park_code ` set (growth_parks db (upper g) s e)"
    then obtain p where p: "p \<in> set (growth_parks db (upper g) s e)" and c: "c = park_code p"
      by auto
    from p have pp: "p \<in> set (park db)" and pr: "park_region_id p = Some (upper g)"
      by (simp_all add: growth_parks_def)
    from wf pp pr have "upper g \<in> region_id ` set (region db)"
      by (auto simp: wf_store_def list_all_iff split: option.splits)
    then obtain r where "r \<in> set (region db)" "region_id r = upper g"
      by auto
    with p have "(p, r, annual_total_of db (park_code p) s, annual_total_of db (park_code p) e)
        \<in> set ?rows"
      by (simp only: growth_stmt_rows [OF wf se] simp_thms)
    then have "growth_out s e (p, r, annual_total_of db (park_code p) s,
        annual_total_of db (park_code p) e) \<in> set out"
      unfolding out by (simp add: set_order_by_desc)
    then have "gr_park_code (growth_out s e (p, r, annual_total_of db (park_code p) s,
        annual_total_of db (park_code p) e)) \<in> gr_park_code ` set out"
      by (rule imageI)
    then show "c \<in> set (map gr_park_code out)"
      by (simp add: growth_out_fields c)
  qed
  have s2: "\<forall>r \<in> set out.
            gr_start_total r = int_or_0 (annual_total_of db (gr_park_code r) s) \<and>
            gr_end_total r = int_or_0 (annual_total_of db (gr_park_code r) e) \<and>
            gr_growth_percent r = growth_pct (gr_start_total r) (gr_end_total r)"
  proof
    fix r assume "r \<in> set out"
    then obtain x where x: "x \<in> set ?rows" and r: "r = growth_out s e x"
      unfolding out by (auto simp: set_order_by_desc)
    obtain p rg st et where pr: "x = (p, rg, st, et)"
      by (metis prod.exhaust)
    from x have "st = annual_total_of db (park_code p) s" "et = annual_total_of db (park_code p) e"
      unfolding pr by (simp_all only: growth_stmt_rows [OF wf se])
    then show "gr_start_total r = int_or_0 (annual_total_of db (gr_park_code r) s) \<and>
            gr_end_total r = int_or_0 (annual_total_of db (gr_park_code r) e) \<and>
            gr_growth_percent r = growth_pct (gr_start_total r) (gr_end_total r)"
      by (simp add: r pr growth_out_fields)
  qed
  from s1 s2 show ?thesis
    by blast
qed

lemma growth_outcome:
  assumes wf: "wf_store db" and se: "s < e"
  shows "(growth_parks db (upper g) s e = [] \<longrightarrow>
            growth_by_region_over_time db g s e =
              Inl (HTTPException 404 ''No data for that region/years'')) \<and>
         (growth_parks db (upper g) s e \<noteq> [] \<longrightarrow>
            (\<exists>out. growth_by_region_over_time db g s e = Inr out))"
  using se growth_stmt_empty_iff [OF wf se, of "upper g"]
  by (simp add: growth_by_region_over_time_def Let_def)

lemma growth_pct_exact:
  assumes st: "st \<noteq> 0" and d: "\<bar>(et - st) * 100\<bar> < 2 ^ 52" and s53: "\<bar>st\<bar> < 2 ^ 53"
  shows "growth_pct st et = py_round (real_of_int (et - st) * 100 / real_of_int st)"
proof -
  from d have d53: "\<bar>et - st\<bar> < 2 ^ 53"
    by (simp add: abs_mult)
  from d have p53: "\<bar>(et - st) * 100\<bar> < 2 ^ 53"
    by simp
  have "float_mul (float_of_int (et - st)) 100 = binary64 (real_of_int ((et - st) * 100))"
    by (simp add: float_mul_def float_of_int_exact [OF d53])
  also have "\<dots> = real_of_int ((et - st) * 100)"
    by (rule binary64_of_int [OF p53])
  finally have m: "float_mul (float_of_int (et - st)) 100 = real_of_int ((et - st) * 100)" .
  have "py_round (float_div (float_mul (float_of_int (et - st)) 100) (float_of_int st)) =
        py_round (real_of_int ((et - st) * 100) / real_of_int st)"
    unfolding m float_of_int_exact [OF s53] float_div_def by (rule round_quotient [OF st d s53])
  with st show ?thesis
    by (simp add: growth_pct_def)
qed

lemma sample_growth:
  "growth_by_region_over_time sample_store ''imr'' 2021 2022 =
    Inr [\<lparr>gr_park_code = ''GRCA'', gr_park_name = ''Grand Canyon National Park'',
         gr_region_id = ''IMR'', gr_region_name = ''Intermountain'',
         gr_start_year = 2021, gr_end_year = 2022, gr_start_total = 200,
         gr_end_total = 300, gr_growth_percent = 50\<rparr>,
      \<lparr>gr_park_code = ''ZION'', gr_park_name = ''Zion National Park'',
         gr_region_id = ''IMR'', gr_region_name = ''Intermountain'',
         gr_start_year = 2021, gr_end_year = 2022, gr_start_total = 0,
         gr_end_total = 500, gr_growth_percent = 0\<rparr>]"
  by code_simp

lemma sample_growth_parks:
  "map park_code (growth_parks sample_store (upper ''imr'') 2021 2022) = [''GRCA'', ''ZION'']"
  by code_simp

lemma sample_growth_totals:
  "map (\<lambda>c. (annual_total_of sample_store c 2021, annual_total_of sample_store c 2022))
     [''GRCA'', ''ZION''] = [(Some 200, Some 300), (Some 0, Some 500)]"
  by code_simp

text \<open>
  Claim C4. For a well-formed store and \<open>start_year < end_year\<close>,
  \<open>growth_by_region_over_time\<close> fails only with status 404, and exactly when the region has
  no park with rows in both boundary years; otherwise it returns a list. The returned
  parks are exactly the parks of the region that have rows in both boundary years. Each
  record carries the park's summed total visits of the start year and of the end year
  and \<open>growth_percent = round((end_total - start_total) * 100.0 / start_total)\<close> as Python
  floats evaluate it, and \<open>0\<close> when \<open>start_total = 0\<close>; while
  \<open>\<bar>(end_total - start_total) * 100\<bar> < 2 ^ 52\<close> and \<open>\<bar>start_total\<bar> < 2 ^ 53\<close> this is the
  exact quotient rounded half to even. The list is in descending order of
  \<open>growth_percent\<close>. A start total of 0 with an end total of 500 gives 0.
\<close>

theorem growth_percent_rule:
  assumes wf: "wf_store db" and se: "s < e"
  shows "(growth_parks db (upper g) s e = [] \<longrightarrow>
            growth_by_region_over_time db g s e =
              Inl (HTTPException 404 ''No data for that region/years'')) \<and>
         (growth_parks db (upper g) s e \<noteq> [] \<longrightarrow>
            (\<exists>out. growth_by_region_over_time db g s e = Inr out)) \<and>
         (\<forall>out. growth_by_region_over_time db g s e = Inr out \<longrightarrow>
            set (map gr_park_code out) = park_code ` set (growth_parks db (upper g) s e) \<and>
            (\<forall>r \<in> set out.
               (\<exists>m \<in> set (monthly_visit db). mv_park_code m = gr_park_code r \<and> mv_year m = s) \<and>
               (\<exists>m \<in> set (monthly_visit db). mv_park_code m = gr_park_code r \<and> mv_year m = e) \<and>
               gr_start_total r = int_or_0 (annual_total_of db (gr_park_code r) s) \<and>
               gr_end_total r = int_or_0 (annual_total_of db (gr_park_code r) e) \<and>
               gr_growth_percent r =
                 (if gr_start_total r = 0 then 0
                  else py_round (float_div
                         (float_mul (float_of_int (gr_end_total r - gr_start_total r)) 100)
                         (float_of_int (gr_start_total r)))) \<and>
               (gr_start_total r \<noteq> 0 \<and>
                \<bar>(gr_end_total r - gr_start_total r) * 100\<bar> < 2 ^ 52 \<and>
                \<bar>gr_start_total r\<bar> < 2 ^ 53 \<longrightarrow>
                  gr_growth_percent r =
                    py_round (real_of_int (gr_end_total r - gr_start_total r) * 100 /
                              real_of_int (gr_start_total r)))) \<and>
            sorted_wrt (\<lambda>a b. gr_growth_percent a \<ge> gr_growth_percent b) out) \<and>
         growth_pct 0 500 = 0"
proof -
  note oc = growth_outcome [OF wf se, of g]
  have rec: "set (map gr_park_code out) = park_code ` set (growth_parks db (upper g) s e) \<and>
            (\<forall>r \<in> set out.
               (\<exists>m \<in> set (monthly_visit db). mv_park_code m = gr_park_code r \<and> mv_year m = s) \<and>
               (\<exists>m \<in> set (monthly_visit db). mv_park_code m = gr_park_code r \<and> mv_year m = e) \<and>
               gr_start_total r = int_or_0 (annual_total_of db (gr_park_code r) s) \<and>
               gr_end_total r = int_or_0 (annual_total_of db (gr_park_code r) e) \<and>
               gr_growth_percent r =
                 (if gr_start_total r = 0 then 0
                  else py_round (float_div
                         (float_mul (float_of_int (gr_end_total r - gr_start_total r)) 100)
                         (float_of_int (gr_start_total r)))) \<and>
               (gr_start_total r \<noteq> 0 \<and>
                \<bar>(gr_end_total r - gr_start_total r) * 100\<bar> < 2 ^ 52 \<and>
                \<bar>gr_start_total r\<bar> < 2 ^ 53 \<longrightarrow>
                  gr_growth_percent r =
                    py_round (real_of_int (gr_end_total r - gr_start_total r) * 100 /
                              real_of_int (gr_start_total r)))) \<and>
            sorted_wrt (\<lambda>a b. gr_growth_percent a \<ge> gr_growth_percent b) out"
    if run: "growth_by_region_over_time db g s e = Inr out" for out
  proof -
    note gr = growth_records [OF wf se run]
    have both: "(\<exists>m \<in> set (monthly_visit db). mv_park_code m = gr_park_code r \<and> mv_year m = s) \<and>
               (\<exists>m \<in> set (monthly_visit db). mv_park_code m = gr_park_code r \<and> mv_year m = e)"
      if r: "r \<in> set out" for r
    proof -
      from r have "gr_park_code r \<in> set (map gr_park_code out)"
        by simp
      with gr obtain p where p: "p \<in> set (growth_parks db (upper g) s e)"
        and c: "gr_park_code r = park_code p"
        by auto
      from p have "park_rows db (park_code p) s \<noteq> []" "park_rows db (park_code p) e \<noteq> []"
        by (simp_all add: growth_parks_def)
      then have "hd (park_rows db (park_code p) s) \<in> set (park_rows db (park_code p) s)"
        "hd (park_rows db (park_code p) e) \<in> set (park_rows db (park_code p) e)"
        by simp_all
      then show ?thesis
        unfolding c park_rows_def by auto
    qed
    have ex: "gr_start_total r \<noteq> 0 \<and>
                \<bar>(gr_end_total r - gr_start_total r) * 100\<bar> < 2 ^ 52 \<and>
                \<bar>gr_start_total r\<bar> < 2 ^ 53 \<longrightarrow>
                  gr_growth_percent r =
                    py_round (real_of_int (gr_end_total r - gr_start_total r) * 100 /
                              real_of_int (gr_start_total r))"
      if r: "r \<in> set out" for r
    proof -
      from gr r have "gr_growth_percent r = growth_pct (gr_start_total r) (gr_end_total r)"
        by blast
      then show ?thesis
        using growth_pct_exact [of "gr_start_total r" "gr_end_total r"] by simp
    qed
    from gr both ex growth_sorted [OF run] show ?thesis
      by (simp add: growth_pct_def)
  qed
  have zero: "growth_pct 0 500 = 0"
    by (simp add: growth_pct_def)
  from oc rec zero show ?thesis
    by blast
qed

theorem growth_percent_rule_witness:
  "wf_store sample_store \<and>
   map park_code (growth_parks sample_store (upper ''imr'') 2021 2022) = [''GRCA'', ''ZION''] \<and>
   map (\<lambda>c. (annual_total_of sample_store c 2021, annual_total_of sample_store c 2022))
     [''GRCA'', ''ZION''] = [(Some 200, Some 300), (Some 0, Some 500)] \<and>
   growth_by_region_over_time sample_store ''imr'' 2021 2022 =
     Inr [\<lparr>gr_park_code = ''GRCA'', gr_park_name = ''Grand Canyon National Park'',
           gr_region_id = ''IMR'', gr_region_name = ''Intermountain'',
           gr_start_year = 2021, gr_end_year = 2022, gr_start_total = 200,
           gr_end_total = 300, gr_growth_percent = 50\<rparr>,
          \<lparr>gr_park_code = ''ZION'', gr_park_name = ''Zion National Park'',
           gr_region_id = ''IMR'', gr_region_name = ''Intermountain'',
           gr_start_year = 2021, gr_end_year = 2022, gr_start_total = 0,
           gr_end_total = 500, gr_growth_percent = 0\<rparr>] \<and>
   py_round (float_div (float_mul (float_of_int (300 - 200)) 100) (float_of_int 200)) = 50 \<and>
   py_round (real_of_int (300 - 200) * 100 / real_of_int 200) = 50 \<and>
   growth_pct 0 500 = 0"
proof -
  have se: "(2021::int) < 2022"
    by simp
  note t = growth_percent_rule [OF sample_store_wf se, of "''imr''"]
  from t have z: "growth_pct 0 500 = 0"
    by blast
  from t sample_growth have "\<forall>r \<in> set [\<lparr>gr_park_code = ''GRCA'', gr_park_name = ''Grand Canyon National Park'',
           gr_region_id = ''IMR'', gr_region_name = ''Intermountain'',
           gr_start_year = 2021, gr_end_year = 2022, gr_start_total = 200,
           gr_end_total = 300, gr_growth_percent = 50\<rparr>].
        gr_growth_percent r =
                 (if gr_start_total r = 0 then 0
                  else py_round (float_div
                         (float_mul (float_of_int (gr_end_total r - gr_start_total r)) 100)
                         (float_of_int (gr_start_total r))))"
    by simp
  then have f: "py_round (float_div (float_mul (float_of_int (300 - 200)) 100) (float_of_int 200)) = 50"
    by simp
  have e: "py_round (real_of_int (300 - 200) * 100 / real_of_int 200) = 50"
    by code_simp
  from sample_store_wf sample_growth_parks sample_growth_totals sample_growth f e z show ?thesis
    by blast
qed

subsection \<open>Q6: ranks are positions in the unfiltered ranking\<close>

lemma starts_with_iff: "starts_with s q \<longleftrightarrow> (\<exists>v. s = q @ v)"
  by (induction s q rule: starts_with.induct) auto

lemma py_in_iff: "py_in q s \<longleftrightarrow> (\<exists>u v. s = u @ q @ v)"
proof (induction s)
  case Nil
  then show ?case by auto
next
  case (Cons c cs)
  show ?case
  proof
    assume "py_in q (c # cs)"
    then consider "starts_with (c # cs) q" | "py_in q cs"
      by auto
    then show "\<exists>u v. c # cs = u @ q @ v"
    proof cases
      case 1
      then obtain v where "c # cs = q @ v"
        by (auto simp: starts_with_iff)
      then have "c # cs = [] @ q @ v"
        by simp
      then show ?thesis by blast
    next
      case 2
      with Cons.IH obtain u v where "cs = u @ q @ v"
        by blast
      then have "c # cs = (c # u) @ q @ v"
        by simp
      then show ?thesis by blast
    qed
  next
    assume "\<exists>u v. c # cs = u @ q @ v"
    then obtain u v where uv: "c # cs = u @ q @ v"
      by blast
    show "py_in q (c # cs)"
    proof (cases u)
      case Nil
      with uv have "starts_with (c # cs) q"
        by (auto simp: starts_with_iff)
      then show ?thesis by simp
    next
      case (Cons a u')
      with uv have "cs = u' @ q @ v"
        by simp
      with Cons.IH have "py_in q cs"
        by blast
      then show ?thesis by simp
    qed
  qed
qed

lemma rank_in_nth:
  "distinct (map (\<lambda>r. fst (fst r)) rows) \<Longrightarrow> i < length rows \<Longrightarrow>
   rank_in rows idx (fst (fst (rows ! i))) = idx + int i + 1"
proof (induction rows arbitrary: i idx)
  case Nil
  then show ?case by simp
next
  case (Cons row rows)
  show ?case
  proof (cases i)
    case 0
    then show ?thesis by simp
  next
    case (Suc j)
    with Cons.prems have j: "j < length rows" and d: "distinct (map (\<lambda>r. fst (fst r)) rows)"
      and ne: "fst (fst row) \<notin> set (map (\<lambda>r. fst (fst r)) rows)"
      by simp_all
    from j have "fst (fst (rows ! j)) \<in> set (map (\<lambda>r. fst (fst r)) rows)"
      by auto
    with ne have "fst (fst row) \<noteq> fst (fst (rows ! j))"
      by metis
    with Cons.IH [OF d j, of "idx + 1"] Suc show ?thesis
      by simp
  qed
qed

lemma park_join_visitD:
  "(p, m) \<in> set (park_join_visit db) \<Longrightarrow> p \<in> set (park db) \<and> m \<in> set (monthly_visit db) \<and>
     mv_park_code m = park_code p"
  by (auto simp: park_join_visit_def split: if_splits)

lemma in_park_join_visit:
  "(p, m) \<in> set (park_join_visit db) \<longleftrightarrow>
     p \<in> set (park db) \<and> m \<in> set (monthly_visit db) \<and> mv_park_code m = park_code p"
  by (auto simp: park_join_visit_def split: if_splits)

lemma park_of_code_unique:
  "distinct (map park_code ps) \<Longrightarrow> p1 \<in> set ps \<Longrightarrow> p2 \<in> set ps \<Longrightarrow>
   park_code p1 = park_code p2 \<Longrightarrow> p1 = p2"
  by (meson distinct_map inj_on_def)

lemma ranked_group:
  assumes wf: "wf_store db" and p0: "p0 \<in> set (park db)" and rg: "park_region_filter rid p0"
  shows "filter (\<lambda>x. (case x of (p, m) \<Rightarrow> (park_code p, park_name p, mv_year m)) =
                     (park_code p0, park_name p0, y))
           (filter (\<lambda>(p, m). mv_year m = y \<and> park_region_filter rid p) (park_join_visit db)) =
         map (\<lambda>m. (p0, m)) (park_rows db (park_code p0) y)"
proof -
  from wf have dc: "distinct (map park_code (park db))"
    by (simp add: wf_store_def)
  have "filter (\<lambda>x. (case x of (p, m) \<Rightarrow> (park_code p, park_name p, mv_year m)) =
                     (park_code p0, park_name p0, y))
           (filter (\<lambda>(p, m). mv_year m = y \<and> park_region_filter rid p) (park_join_visit db)) =
        filter (\<lambda>(p, m). park_code p = park_code p0 \<and> mv_year m = y) (park_join_visit db)"
    unfolding filter_filter
  proof (rule filter_cong [OF refl])
    fix x assume x: "x \<in> set (park_join_visit db)"
    obtain p m where pm: "x = (p, m)" by (cases x)
    from x have px: "p \<in> set (park db)"
      by (simp add: pm in_park_join_visit)
    have same: "p = p0" if "park_code p = park_code p0"
      using park_of_code_unique [OF dc px p0 that] .
    show "((case x of (p, m) \<Rightarrow> mv_year m = y \<and> park_region_filter rid p) \<and>
           (case x of (p, m) \<Rightarrow> (park_code p, park_name p, mv_year m)) =
             (park_code p0, park_name p0, y)) =
          (case x of (p, m) \<Rightarrow> park_code p = park_code p0 \<and> mv_year m = y)"
      using same rg by (auto simp: pm)
  qed
  also have "\<dots> = map (\<lambda>m. (p0, m)) (park_rows db (park_code p0) y)"
    unfolding park_rows_def by (rule filter_park_join_visit [OF wf p0])
  finally show ?thesis .
qed

lemma in_all_ranked_iff:
  assumes wf: "wf_store db"
  shows "((c, n, yr), t) \<in> set (all_ranked db y rid) \<longleftrightarrow>
           (\<exists>p0 \<in> set (scope_parks db y rid). c = park_code p0 \<and> n = park_name p0) \<and>
           yr = y \<and> t = annual_total_of db c y"
    (is "?L \<longleftrightarrow> ?R")
proof
  let ?rows = "filter (\<lambda>(p, m). mv_year m = y \<and> park_region_filter rid p) (park_join_visit db)"
  assume ?L
  then obtain x0 where x0: "x0 \<in> set ?rows"
    and k: "(c, n, yr) = (case x0 of (p, m) \<Rightarrow> (park_code p, park_name p, mv_year m))"
    and t: "t = sql_sum (map (\<lambda>(p, m). mv_total_visits m)
               (filter (\<lambda>x. (case x of (p, m) \<Rightarrow> (park_code p, park_name p, mv_year m)) =
                   (c, n, yr)) ?rows))"
    by (auto simp: all_ranked_def set_order_by_desc in_sum_groups)
  obtain p0 m0 where pm: "x0 = (p0, m0)" by (cases x0)
  from x0 have mem: "p0 \<in> set (park db)" "m0 \<in> set (monthly_visit db)"
      "mv_park_code m0 = park_code p0"
    and f: "mv_year m0 = y" "park_region_filter rid p0"
    by (auto simp: pm in_park_join_visit)
  from k f have c: "c = park_code p0" and n: "n = park_name p0" and yr: "yr = y"
    by (simp_all add: pm)
  from mem f have "m0 \<in> set (park_rows db (park_code p0) y)"
    by (simp add: park_rows_def)
  then have ne: "park_rows db (park_code p0) y \<noteq> []"
    by auto
  with mem(1) f(2) have sc: "p0 \<in> set (scope_parks db y rid)"
    by (simp add: scope_parks_alt)
  have "t = annual_total_of db c y"
    unfolding t c n yr ranked_group [OF wf mem(1) f(2)]
    by (simp add: annual_total_of_def comp_def)
  with sc c n yr show ?R
    by blast
next
  let ?rows = "filter (\<lambda>(p, m). mv_year m = y \<and> park_region_filter rid p) (park_join_visit db)"
  assume ?R
  then obtain p0 where sc: "p0 \<in> set (scope_parks db y rid)" and c: "c = park_code p0"
    and n: "n = park_name p0" and yr: "yr = y" and t: "t = annual_total_of db c y"
    by blast
  from sc have p0: "p0 \<in> set (park db)" and rg: "park_region_filter rid p0"
    and ne: "park_rows db (park_code p0) y \<noteq> []"
    by (simp_all add: scope_parks_alt)
  from ne have "hd (park_rows db (park_code p0) y) \<in> set (park_rows db (park_code p0) y)"
    by (rule hd_in_set)
  then obtain m0 where "m0 \<in> set (park_rows db (park_code p0) y)"
    by blast
  then have m0: "m0 \<in> set (monthly_visit db)" "mv_park_code m0 = park_code p0" "mv_year m0 = y"
    by (simp_all add: park_rows_def)
  from m0 p0 rg have x0: "(p0, m0) \<in> set ?rows"
    by (simp add: in_park_join_visit)
  have "(case (p0, m0) of (p, m) \<Rightarrow> (park_code p, park_name p, mv_year m)) = (c, n, yr)"
    by (simp add: m0 c n yr)
  with x0 have key: "(c, n, yr) \<in> (\<lambda>(p, m). (park_code p, park_name p, mv_year m)) ` set ?rows"
    by (metis (no_types, lifting) imageI)
  have "t = sql_sum (map (\<lambda>(p, m). mv_total_visits m)
               (filter (\<lambda>x. (case x of (p, m) \<Rightarrow> (park_code p, park_name p, mv_year m)) =
                   (c, n, yr)) ?rows))"
    unfolding t c n yr ranked_group [OF wf p0 rg]
    by (simp add: annual_total_of_def comp_def)
  with key show ?L
    unfolding all_ranked_def set_order_by_desc by (simp only: in_sum_groups simp_thms)
qed

lemma all_ranked_distinct:
  assumes wf: "wf_store db"
  shows "distinct (map (\<lambda>r. fst (fst r)) (all_ranked db y rid))"
proof -
  let ?key = "\<lambda>(p, m). (park_code p, park_name p, mv_year m)"
  let ?rows = "filter (\<lambda>(p, m). mv_year m = y \<and> park_region_filter rid p) (park_join_visit db)"
  let ?groups = "sum_groups ?key (\<lambda>(p, m). mv_total_visits m) ?rows"
  from wf have dp: "distinct (map park_code (park db))"
    by (simp add: wf_store_def)
  have inj: "inj_on fst (?key ` set ?rows)"
  proof (rule inj_onI)
    fix k1 k2
    assume k1: "k1 \<in> ?key ` set ?rows" and k2: "k2 \<in> ?key ` set ?rows" and eq: "fst k1 = fst k2"
    from k1 obtain p1 m1 where 1: "(p1, m1) \<in> set (park_join_visit db)" "mv_year m1 = y"
      "k1 = (park_code p1, park_name p1, mv_year m1)" by auto
    from k2 obtain p2 m2 where 2: "(p2, m2) \<in> set (park_join_visit db)" "mv_year m2 = y"
      "k2 = (park_code p2, park_name p2, mv_year m2)" by auto
    from 1 2 eq have "park_code p1 = park_code p2" by simp
    with 1(1) 2(1) dp have "p1 = p2"
      by (auto dest!: park_join_visitD intro: park_of_code_unique)
    with 1 2 show "k1 = k2" by simp
  qed
  have "distinct (remdups (map ?key ?rows))"
    by simp
  moreover from inj have "inj_on fst (set (remdups (map ?key ?rows)))"
    by simp
  ultimately have "distinct (map fst (remdups (map ?key ?rows)))"
    by (simp only: distinct_map simp_thms)
  then have "distinct (map fst (map fst ?groups))"
    by (simp only: keys_sum_groups)
  then have dg: "distinct (map (\<lambda>r. fst (fst r)) ?groups)"
    by (simp add: comp_def)
  have "inj_on (\<lambda>r. fst (fst r)) (set ?groups)"
    using dg by (simp add: distinct_map)
  moreover from dg have "distinct ?groups"
    by (simp add: distinct_map)
  ultimately have "distinct (map (\<lambda>r. fst (fst r)) (order_by_desc snd ?groups))"
    by (simp add: distinct_map set_order_by_desc distinct_order_by_desc)
  then show ?thesis
    by (simp add: all_ranked_def)
qed

lemma py_slice_to_map: "map f (py_slice_to n xs) = py_slice_to n (map f xs)"
  by (simp add: py_slice_to_def take_map)

lemma top_park_out_ranked:
  assumes d: "distinct (map (\<lambda>r. fst (fst r)) ranked)"
  shows "map (top_park_out ranked) ranked = ranked_records ranked"
proof (rule nth_equalityI)
  show "length (map (top_park_out ranked) ranked) = length (ranked_records ranked)"
    by (simp add: ranked_records_def)
next
  fix i assume "i < length (map (top_park_out ranked) ranked)"
  then have i: "i < length ranked" by simp
  obtain code name yr t where row: "ranked ! i = ((code, name, yr), t)"
    by (metis prod.exhaust)
  from rank_in_nth [OF d i, of 0] row have "rank_in ranked 0 code = int i + 1"
    by simp
  with i row show "map (top_park_out ranked) ranked ! i = ranked_records ranked ! i"
    by (simp add: ranked_records_def top_park_out_def nth_enumerate_eq)
qed

lemma record_matches_out: "record_matches sl q (top_park_out ranked row) = name_matches sl q row"
  by (cases row)
    (auto simp: record_matches_def name_matches_def top_park_out_def py_in_iff
      split: option.splits prod.splits)

lemma top_parks_refines:
  assumes wf: "wf_store db"
  shows "top_parks_by_year sl db y limit g q =
           Inr (py_slice_to limit (filter (record_matches sl q)
                  (ranked_records (all_ranked db y (map_option upper g)))))"
proof -
  let ?full = "all_ranked db y (map_option upper g)"
  have "map (top_park_out ?full) (py_slice_to limit (filter (name_matches sl q) ?full)) =
        py_slice_to limit (filter (record_matches sl q) (map (top_park_out ?full) ?full))"
    by (simp add: py_slice_to_map filter_map comp_def record_matches_out)
  also have "\<dots> = py_slice_to limit (filter (record_matches sl q) (ranked_records ?full))"
    by (simp add: top_park_out_ranked [OF all_ranked_distinct [OF wf]])
  finally show ?thesis
    by (simp add: top_parks_by_year_def Let_def)
qed

lemma ranked_records_nth:
  assumes i: "i < length ranked"
  shows "ranked_records ranked ! i =
           \<lparr>tp_rank = int i + 1, tp_park_code = fst (fst (ranked ! i)),
            tp_park_name = fst (snd (fst (ranked ! i))), tp_year = snd (snd (fst (ranked ! i))),
            tp_annual_total_visits = int_or_0 (snd (ranked ! i))\<rparr>"
proof -
  obtain code name yr t where row: "ranked ! i = ((code, name, yr), t)"
    by (metis prod.exhaust)
  with i show ?thesis
    by (simp add: ranked_records_def nth_enumerate_eq)
qed

lemma length_ranked_records: "length (ranked_records ranked) = length ranked"
  by (simp add: ranked_records_def)

lemma ranked_records_codes: "map tp_park_code (ranked_records ranked) = map (\<lambda>r. fst (fst r)) ranked"
  by (rule nth_equalityI) (simp_all add: length_ranked_records ranked_records_nth)

lemma full_ranking:
  fixes db :: store and y :: int and rid :: "string option"
  assumes wf: "wf_store db"
  defines "full \<equiv> ranked_records (all_ranked db y rid)"
  shows "distinct (map tp_park_code full)"
    and "set (map tp_park_code full) = park_code ` set (scope_parks db y rid)"
    and "\<forall>i < length full. tp_rank (full ! i) = int i + 1"
    and "\<forall>r \<in> set full. tp_year r = y \<and>
           tp_annual_total_visits r = int_or_0 (annual_total_of db (tp_park_code r) y) \<and>
           (\<exists>p \<in> set (park db). park_code p = tp_park_code r \<and> park_name p = tp_park_name r)"
    and "sorted_wrt (\<lambda>a b. annual_total_of db (tp_park_code a) y \<ge>
                            annual_total_of db (tp_park_code b) y) full"
proof -
  let ?rows = "all_ranked db y rid"
  show "distinct (map tp_park_code full)"
    unfolding full_def ranked_records_codes by (rule all_ranked_distinct [OF wf])
  show "set (map tp_park_code full) = park_code ` set (scope_parks db y rid)"
  proof (intro set_eqI iffI)
    fix c assume "c \<in> set (map tp_park_code full)"
    then obtain x where x: "x \<in> set ?rows" and c: "c = fst (fst x)"
      unfolding full_def ranked_records_codes by auto
    obtain c' n yr t where xx: "x = ((c', n, yr), t)"
      by (metis prod.exhaust)
    from x have "\<exists>p0 \<in> set (scope_parks db y rid). c' = park_code p0 \<and> n = park_name p0"
      unfolding xx by (simp only: in_all_ranked_iff [OF wf])
    with c show "c \<in> park_code ` set (scope_parks db y rid)"
      by (auto simp: xx)
  next
    fix c assume "c \<in> park_code ` set (scope_parks db y rid)"
    then obtain p0 where p0: "p0 \<in> set (scope_parks db y rid)" and c: "c = park_code p0"
      by auto
    then have "((c, park_name p0, y), annual_total_of db c y) \<in> set ?rows"
      unfolding in_all_ranked_iff [OF wf] by blast
    then have "fst (fst ((c, park_name p0, y), annual_total_of db c y))
        \<in> (\<lambda>r. fst (fst r)) ` set ?rows"
      by (rule imageI)
    then show "c \<in> set (map tp_park_code full)"
      unfolding full_def ranked_records_codes by simp
  qed
  show "\<forall>i < length full. tp_rank (full ! i) = int i + 1"
    by (simp add: full_def length_ranked_records ranked_records_nth)
  have rec: "full = map (top_park_out ?rows) ?rows"
    unfolding full_def by (rule top_park_out_ranked [OF all_ranked_distinct [OF wf], symmetric])
  have row: "tp_park_code (top_park_out ?rows x) = fst (fst x) \<and>
      tp_park_name (top_park_out ?rows x) = fst (snd (fst x)) \<and>
      tp_year (top_park_out ?rows x) = snd (snd (fst x)) \<and>
      tp_annual_total_visits (top_park_out ?rows x) = int_or_0 (snd x)" for x
    by (cases x) (auto simp: top_park_out_def)
  have fields: "snd (snd (fst x)) = y \<and> snd x = annual_total_of db (fst (fst x)) y \<and>
      (\<exists>p \<in> set (park db). park_code p = fst (fst x) \<and> park_name p = fst (snd (fst x)))"
    if x: "x \<in> set ?rows" for x
  proof -
    obtain c n yr t where xx: "x = ((c, n, yr), t)"
      by (metis prod.exhaust)
    from x have "(\<exists>p0 \<in> set (scope_parks db y rid). c = park_code p0 \<and> n = park_name p0) \<and>
           yr = y \<and> t = annual_total_of db c y"
      unfolding xx by (simp only: in_all_ranked_iff [OF wf])
    then show ?thesis
      by (auto simp: xx scope_parks_alt)
  qed
  show "\<forall>r \<in> set full. tp_year r = y \<and>
           tp_annual_total_visits r = int_or_0 (annual_total_of db (tp_park_code r) y) \<and>
           (\<exists>p \<in> set (park db). park_code p = tp_park_code r \<and> park_name p = tp_park_name r)"
  proof
    fix r assume "r \<in> set full"
    then obtain x where x: "x \<in> set ?rows" and r: "r = top_park_out ?rows x"
      unfolding rec by auto
    from fields [OF x] row [of x] show "tp_year r = y \<and>
           tp_annual_total_visits r = int_or_0 (annual_total_of db (tp_park_code r) y) \<and>
           (\<exists>p \<in> set (park db). park_code p = tp_park_code r \<and> park_name p = tp_park_name r)"
      unfolding r by simp
  qed
  have "sorted_wrt (\<lambda>a b. snd a \<ge> snd b) ?rows"
    by (simp add: all_ranked_def sorted_order_by_desc)
  then have "sorted_wrt (\<lambda>a b. annual_total_of db (tp_park_code (top_park_out ?rows a)) y \<ge>
                               annual_total_of db (tp_park_code (top_park_out ?rows b)) y) ?rows"
  proof (rule sorted_wrt_mono_rel [rotated])
    fix a b assume "a \<in> set ?rows" "b \<in> set ?rows" "snd b \<le> snd a"
    with fields [of a] fields [of b] row [of a] row [of b]
    show "annual_total_of db (tp_park_code (top_park_out ?rows b)) y \<le>
          annual_total_of db (tp_park_code (top_park_out ?rows a)) y"
      by simp
  qed
  then show "sorted_wrt (\<lambda>a b. annual_total_of db (tp_park_code a) y \<ge>
                            annual_total_of db (tp_park_code b) y) full"
    unfolding rec by (simp add: sorted_wrt_map)
qed

lemma sample_top_grand:
  "top_parks_by_year lower sample_store 2020 1 None (Some ''Grand'') =
     Inr [\<lparr>tp_rank = 3, tp_park_code = ''GRCA'', tp_park_name = ''Grand Canyon National Park'',
           tp_year = 2020, tp_annual_total_visits = 100\<rparr>]"
  by code_simp

lemma sample_top_all:
  "top_parks_by_year lower sample_store 2020 3 None None =
     Inr [\<lparr>tp_rank = 1, tp_park_code = ''YOSE'', tp_park_name = ''Yosemite National Park'',
           tp_year = 2020, tp_annual_total_visits = 300\<rparr>,
          \<lparr>tp_rank = 2, tp_park_code = ''ZION'', tp_park_name = ''Zion National Park'',
           tp_year = 2020, tp_annual_total_visits = 200\<rparr>,
          \<lparr>tp_rank = 3, tp_park_code = ''GRCA'', tp_park_name = ''Grand Canyon National Park'',
           tp_year = 2020, tp_annual_total_visits = 100\<rparr>]"
  by code_simp

text \<open>
  Claim C1. For a well-formed store, every case mapping \<open>str_lower\<close>, year, optional region,
  optional name query and limit, \<open>top_parks_by_year\<close> succeeds, and there is a list \<open>full\<close>,
  the full ranking of the scope, such that:
  \<^item> \<open>full\<close> is what the call without name query returns for the limit \<open>length full\<close>;
  \<^item> \<open>full\<close> holds each park of the scope (the parks of the region, or all parks, that have
    a row in the year) exactly once, with its name, the year and its annual total
    visits, in descending order of the annual total, and the record at position \<open>i\<close>
    (from 0) has rank \<open>i + 1\<close>;
  \<^item> the result is \<open>full\<close> filtered by the name query (the lower-cased query occurs in
    the lower-cased park name) and then cut to its first \<open>limit\<close> records; for a negative
    limit the last \<open>- limit\<close> records are dropped, as Python's slice does;
  \<^item> so every returned record is a record of \<open>full\<close> and its rank is its 1-based position
    in \<open>full\<close>: the name filter never changes a rank.
\<close>

theorem top_n_rank_before_filter:
  assumes wf: "wf_store db"
  shows "\<exists>full out.
           top_parks_by_year sl db y limit g q = Inr out \<and>
           top_parks_by_year sl db y (int (length full)) g None = Inr full \<and>
           distinct (map tp_park_code full) \<and>
           set (map tp_park_code full) = park_code ` set (scope_parks db y (map_option upper g)) \<and>
           (\<forall>i < length full. tp_rank (full ! i) = int i + 1) \<and>
           (\<forall>r \<in> set full. tp_year r = y \<and>
              tp_annual_total_visits r = int_or_0 (annual_total_of db (tp_park_code r) y) \<and>
              (\<exists>p \<in> set (park db). park_code p = tp_park_code r \<and> park_name p = tp_park_name r)) \<and>
           sorted_wrt (\<lambda>a b. annual_total_of db (tp_park_code a) y \<ge>
                               annual_total_of db (tp_park_code b) y) full \<and>
           (0 \<le> limit \<longrightarrow>
              out = take (nat limit) (filter (record_matches sl q) full) \<and>
              length out \<le> nat limit) \<and>
           (limit < 0 \<longrightarrow>
              out = take (length (filter (record_matches sl q) full) - nat (- limit))
                      (filter (record_matches sl q) full)) \<and>
           (\<forall>r \<in> set out. record_matches sl q r \<and>
              (\<exists>i < length full. full ! i = r \<and> tp_rank r = int i + 1))"
proof -
  let ?full = "ranked_records (all_ranked db y (map_option upper g))"
  let ?out = "py_slice_to limit (filter (record_matches sl q) ?full)"
  note fr = full_ranking [OF wf, of y "map_option upper g"]
  have run: "top_parks_by_year sl db y limit g q = Inr ?out"
    by (rule top_parks_refines [OF wf])
  have unf: "top_parks_by_year sl db y (int (length ?full)) g None = Inr ?full"
    using top_parks_refines [OF wf, of sl y "int (length ?full)" g None]
    by (simp add: record_matches_def py_slice_to_def)
  have pos: "0 \<le> limit \<longrightarrow>
              ?out = take (nat limit) (filter (record_matches sl q) ?full) \<and>
              length ?out \<le> nat limit"
    by (simp add: py_slice_to_def)
  have neg: "limit < 0 \<longrightarrow>
              ?out = take (length (filter (record_matches sl q) ?full) - nat (- limit))
                      (filter (record_matches sl q) ?full)"
    by (simp add: py_slice_to_def)
  have mem: "\<forall>r \<in> set ?out. record_matches sl q r \<and>
              (\<exists>i < length ?full. ?full ! i = r \<and> tp_rank r = int i + 1)"
  proof
    fix r assume "r \<in> set ?out"
    then have "r \<in> set (filter (record_matches sl q) ?full)"
      by (rule in_py_slice_toD)
    then have m: "record_matches sl q r" and "r \<in> set ?full"
      by simp_all
    then obtain i where i: "i < length ?full" "?full ! i = r"
      by (auto simp: in_set_conv_nth)
    with fr(3) have "tp_rank r = int i + 1"
      by auto
    with m i show "record_matches sl q r \<and>
              (\<exists>i < length ?full. ?full ! i = r \<and> tp_rank r = int i + 1)"
      by blast
  qed
  from run unf fr(1) fr(2) fr(3) fr(4) fr(5) pos neg mem show ?thesis
    by blast
qed

theorem top_n_rank_before_filter_witness:
  "wf_store sample_store \<and>
   top_parks_by_year lower sample_store 2020 3 None None =
     Inr [\<lparr>tp_rank = 1, tp_park_code = ''YOSE'', tp_park_name = ''Yosemite National Park'',
           tp_year = 2020, tp_annual_total_visits = 300\<rparr>,
          \<lparr>tp_rank = 2, tp_park_code = ''ZION'', tp_park_name = ''Zion National Park'',
           tp_year = 2020, tp_annual_total_visits = 200\<rparr>,
          \<lparr>tp_rank = 3, tp_park_code = ''GRCA'', tp_park_name = ''Grand Canyon National Park'',
           tp_year = 2020, tp_annual_total_visits = 100\<rparr>] \<and>
   top_parks_by_year lower sample_store 2020 1 None (Some ''Grand'') =
     Inr [\<lparr>tp_rank = 3, tp_park_code = ''GRCA'', tp_park_name = ''Grand Canyon National Park'',
           tp_year = 2020, tp_annual_total_visits = 100\<rparr>] \<and>
   (\<exists>full. top_parks_by_year lower sample_store 2020 (int (length full)) None None = Inr full \<and>
      [\<lparr>tp_rank = 3, tp_park_code = ''GRCA'', tp_park_name = ''Grand Canyon National Park'',
        tp_year = 2020, tp_annual_total_visits = 100\<rparr>] =
        take (nat 1) (filter (record_matches lower (Some ''Grand'')) full))"
proof -
  from top_n_rank_before_filter [OF sample_store_wf, of lower 2020 1 None "Some ''Grand''"]
  obtain full out where
    "top_parks_by_year lower sample_store 2020 1 None (Some ''Grand'') = Inr out"
    "top_parks_by_year lower sample_store 2020 (int (length full)) None None = Inr full"
    "out = take (nat 1) (filter (record_matches lower (Some ''Grand'')) full)"
    by auto
  with sample_top_grand have "\<exists>full.
      top_parks_by_year lower sample_store 2020 (int (length full)) None None = Inr full \<and>
      [\<lparr>tp_rank = 3, tp_park_code = ''GRCA'', tp_park_name = ''Grand Canyon National Park'',
        tp_year = 2020, tp_annual_total_visits = 100\<rparr>] =
        take (nat 1) (filter (record_matches lower (Some ''Grand'')) full)"
    by auto
  with sample_store_wf sample_top_grand sample_top_all show ?thesis
    by blast
qed

subsection \<open>Q10: statistics of the monthly totals per park\<close>

lemma variability_stmt_row:
  assumes wf: "wf_store db" and row: "row \<in> set (variability_stmt db y rid pc q)"
  shows "\<exists>c name reg_id reg_name yr.
           park_rows db c y \<noteq> [] \<and>
           row = ((c, name, reg_id, reg_name, yr),
                  length (park_rows db c y),
                  sql_sum (map mv_total_visits (park_rows db c y)),
                  sql_sum (map (squared \<circ> mv_total_visits) (park_rows db c y)))"
proof -
  let ?F = "\<lambda>(p, m, r). mv_year m = y \<and> region_filter rid r \<and> park_filter pc q p"
  let ?joined = "filter ?F (park_visit_region db)"
  from row obtain k g where kg: "(k, g) \<in> set (group_by park_region_year_key ?joined)"
    and rw: "row = (k, sql_count (map (\<lambda>(p, m, r). Some (mv_month m)) g),
                    sql_sum (map total_of g), sql_sum (map (squared \<circ> total_of) g))"
    by (auto simp: variability_stmt_def)
  from kg obtain x0 where x0: "x0 \<in> set ?joined" "park_region_year_key x0 = k"
    and g: "g = filter (\<lambda>x. park_region_year_key x = k) ?joined"
    by (auto simp: in_group_by)
  obtain p0 m0 rg0 where pmr: "x0 = (p0, m0, rg0)" by (cases x0)
  let ?rows = "park_rows db (park_code p0) y"
  from x0 g have g': "g = map (\<lambda>m. (p0, m, rg0)) ?rows"
    using group_of_park [OF wf, of p0 m0 rg0 y rid pc q] by (simp add: pmr)
  from x0(1) have "m0 \<in> set ?rows"
    by (auto simp: pmr park_rows_def in_park_visit_region)
  then have ne: "?rows \<noteq> []" by auto
  have c: "sql_count (map (\<lambda>(p, m, r). Some (mv_month m)) g) = length ?rows"
    by (simp add: g' comp_def sql_count_Some)
  have s1: "map total_of g = map mv_total_visits ?rows"
    by (simp add: g' comp_def total_of_def)
  have s2: "map (squared \<circ> total_of) g = map (squared \<circ> mv_total_visits) ?rows"
    by (simp add: g' comp_def total_of_def)
  from x0(2) have "k = (park_code p0, park_name p0, map_option region_id rg0,
      map_option region_name rg0, mv_year m0)"
    by (simp add: pmr park_region_year_key_def)
  with rw c s1 s2 ne have "?rows \<noteq> [] \<and>
      row = ((park_code p0, park_name p0, map_option region_id rg0,
              map_option region_name rg0, mv_year m0),
             length ?rows, sql_sum (map mv_total_visits ?rows),
             sql_sum (map (squared \<circ> mv_total_visits) ?rows))"
    by simp
  then show ?thesis
    by blast
qed

lemma variability_out_value:
  assumes "n > 0"
  shows "variability_out ((code, name, reg_id, reg_name, yr), n, a, b) =
     Inr \<lparr>var_park_code = code, var_park_name = name,
          var_region_id = reg_id, var_region_name = reg_name, var_year = yr,
          var_avg_monthly_visits = py_round (float_div (float_or_0 a) (float_of_int (int n))),
          var_std_dev_monthly_visits =
            py_round (float_sqrt (max (float_sub
                (float_div (float_or_0 b) (float_of_int (int n)))
                (float_mul (float_div (float_or_0 a) (float_of_int (int n)))
                   (float_div (float_or_0 a) (float_of_int (int n))))) 0)),
          var_months_with_data = int n\<rparr>"
  using assms by (simp add: variability_out_def py_truediv_def Let_def)

lemma monthly_totals_facts:
  "length (monthly_totals db c y) = length (park_rows db c y) \<and>
   sum_list (monthly_totals db c y) = sum_list (map int_or_0 (map mv_total_visits (park_rows db c y))) \<and>
   sum_list (map (\<lambda>v. v * v) (monthly_totals db c y)) =
     sum_list (map int_or_0 (map (squared \<circ> mv_total_visits) (park_rows db c y)))"
  by (simp add: monthly_totals_def comp_def sum_list_map_sort_key int_or_0_squared)

lemma variability_record:
  assumes wf: "wf_store db" and run: "park_visit_variability db y g pc q l = Inr out"
    and r: "r \<in> set out"
  shows "monthly_totals db (var_park_code r) y \<noteq> [] \<and>
         var_months_with_data r = int (length (monthly_totals db (var_park_code r) y)) \<and>
         var_avg_monthly_visits r = py_round (float_mean (monthly_totals db (var_park_code r) y)) \<and>
         var_std_dev_monthly_visits r =
           py_round (float_std_dev (monthly_totals db (var_park_code r) y))"
proof -
  from run obtain results where fe: "for_each variability_out (variability_stmt db y (map_option upper g)
      (map_option upper pc) q) = Inr results"
    and out: "out = (if l > 0 then py_slice_to l (order_by_desc var_std_dev_monthly_visits results)
                     else order_by_desc var_std_dev_monthly_visits results)"
    by (auto simp: park_visit_variability_def Let_def split: if_splits sum.splits)
  from out r have "r \<in> set results"
    by (auto simp: set_order_by_desc split: if_splits dest!: in_py_slice_toD)
  from for_each_resultD [OF fe this] obtain row where
    row: "row \<in> set (variability_stmt db y (map_option upper g) (map_option upper pc) q)"
    and rr: "variability_out row = Inr r"
    by blast
  from variability_stmt_row [OF wf row] obtain c name reg_id reg_name yr where
    ne: "park_rows db c y \<noteq> []"
    and rw: "row = ((c, name, reg_id, reg_name, yr),
                  length (park_rows db c y),
                  sql_sum (map mv_total_visits (park_rows db c y)),
                  sql_sum (map (squared \<circ> mv_total_visits) (park_rows db c y)))"
    by blast
  let ?rows = "park_rows db c y"
  let ?vs = "monthly_totals db c y"
  let ?n = "float_of_int (int (length ?rows))"
  let ?a = "float_or_0 (sql_sum (map mv_total_visits ?rows))"
  let ?b = "float_or_0 (sql_sum (map (squared \<circ> mv_total_visits) ?rows))"
  from ne have n: "length ?rows > 0" by simp
  from rr variability_out_value [OF n, of c name reg_id reg_name yr
      "sql_sum (map mv_total_visits ?rows)" "sql_sum (map (squared \<circ> mv_total_visits) ?rows)"]
  have rec: "r = \<lparr>var_park_code = c, var_park_name = name,
          var_region_id = reg_id, var_region_name = reg_name, var_year = yr,
          var_avg_monthly_visits = py_round (float_div ?a ?n),
          var_std_dev_monthly_visits =
            py_round (float_sqrt (max (float_sub (float_div ?b ?n)
                (float_mul (float_div ?a ?n) (float_div ?a ?n))) 0)),
          var_months_with_data = int (length ?rows)\<rparr>"
    by (simp add: rw)
  have code: "var_park_code r = c"
    by (simp add: rec)
  have len: "length ?vs = length ?rows"
    using monthly_totals_facts [of db c y] by simp
  have mean: "float_mean ?vs = float_div ?a ?n"
    using monthly_totals_facts [of db c y]
    by (simp add: float_mean_def float_or_0_sql_sum)
  have sd: "float_std_dev ?vs =
      float_sqrt (max (float_sub (float_div ?b ?n)
                (float_mul (float_div ?a ?n) (float_div ?a ?n))) 0)"
    unfolding float_std_dev_def mean
    using monthly_totals_facts [of db c y]
    by (simp add: float_or_0_sql_sum)
  from ne len have vne: "?vs \<noteq> []" by auto
  show ?thesis
    unfolding code
    using vne len mean sd by (simp add: rec)
qed

lemma for_each_total:
  "(\<And>x. x \<in> set xs \<Longrightarrow> \<exists>v. f x = Inr v) \<Longrightarrow> \<exists>ys. for_each f xs = Inr ys"
proof (induction xs)
  case Nil
  then show ?case by simp
next
  case (Cons a xs)
  from Cons.prems obtain v where v: "f a = Inr v" by auto
  from Cons obtain ys where "for_each f xs = Inr ys" by auto
  with v show ?case by simp
qed

lemma variability_succeeds:
  assumes wf: "wf_store db"
    and ne: "variability_stmt db y (map_option upper g) (map_option upper pc) q \<noteq> []"
  shows "\<exists>res. park_visit_variability db y g pc q l = Inr res"
proof -
  let ?rows = "variability_stmt db y (map_option upper g) (map_option upper pc) q"
  have "\<exists>v. variability_out row = Inr v" if "row \<in> set ?rows" for row
  proof -
    from variability_stmt_row [OF wf that] obtain c name reg_id reg_name yr where
      n: "park_rows db c y \<noteq> []"
      and rw: "row = ((c, name, reg_id, reg_name, yr),
                  length (park_rows db c y),
                  sql_sum (map mv_total_visits (park_rows db c y)),
                  sql_sum (map (squared \<circ> mv_total_visits) (park_rows db c y)))"
      by blast
    from n have "length (park_rows db c y) > 0" by simp
    from variability_out_value [OF this] show ?thesis
      unfolding rw by blast
  qed
  then obtain results where "for_each variability_out ?rows = Inr results"
    using for_each_total by blast
  with ne show ?thesis
    by (simp add: park_visit_variability_def Let_def)
qed

lemma example_mean: "float_mean [100, 200, 300] = 200"
  by code_simp

lemma example_variance:
  "max (float_sub (float_div (float_of_int (sum_list (map (\<lambda>v. v * v) [100, 200, 300])))
                     (float_of_int (int (length [100, 200, 300::int]))))
                  (float_mul (float_mean [100, 200, 300]) (float_mean [100, 200, 300]))) 0 =
   916259689813333 / 137438953472"
  by code_simp

lemma example_statistics:
  "py_round (float_mean [100, 200, 300]) = 200 \<and>
   py_round (float_std_dev [100, 200, 300]) = 82"
proof -
  have "py_round (float_mean [100, 200, 300]) = 200"
    unfolding example_mean by code_simp
  moreover have "py_round (float_std_dev [100, 200, 300]) = 82"
    unfolding float_std_dev_def example_variance by (rule float_sqrt_example)
  ultimately show ?thesis
    by blast
qed

lemma float_mean_round:
  assumes ne: "vs \<noteq> []" and s: "\<bar>sum_list vs\<bar> < 2 ^ 52" and n: "int (length vs) < 2 ^ 53"
  shows "py_round (float_mean vs) = py_round (population_mean vs)"
proof -
  from ne have b: "int (length vs) \<noteq> 0"
    by simp
  from n have b53: "\<bar>int (length vs)\<bar> < 2 ^ 53"
    by simp
  from float_div_round [OF b s b53] show ?thesis
    by (simp add: float_mean_def population_mean_def)
qed

lemma sample_monthly_totals: "monthly_totals sample_store ''GRCA'' 2023 = [100, 200, 300]"
  by code_simp

lemma flip_order_singleton: "order_by_desc k [x] = [x]"
  by (simp add: order_by_desc_def)

lemma variability_single_row:
  assumes stmt: "variability_stmt db y (map_option upper g) (map_option upper pc) q = [row]"
    and row: "variability_out row = Inr r" and l: "0 < l"
  shows "park_visit_variability db y g pc q l = Inr [r]"
  using l by (simp add: park_visit_variability_def stmt row Let_def flip_order_singleton
      py_slice_to_def)

lemma sample_variability_stmt:
  "variability_stmt sample_store 2023 None None None =
     [((''GRCA'', ''Grand Canyon National Park'', Some ''IMR'', Some ''Intermountain'', 2023),
       3, Some 600, Some 140000)]"
  by code_simp

lemma sample_row_mean:
  "py_round (float_div (float_or_0 (Some 600)) (float_of_int (int 3))) = 200"
  by code_simp

lemma sample_row_variance:
  "max (float_sub (float_div (float_or_0 (Some 140000)) (float_of_int 3))
          (float_mul (float_div (float_or_0 (Some 600)) (float_of_int 3))
             (float_div (float_or_0 (Some 600)) (float_of_int 3)))) 0 =
   916259689813333 / 137438953472"
  by code_simp

lemma sample_variability:
  "park_visit_variability sample_store 2023 None None None 10 =
     Inr [\<lparr>var_park_code = ''GRCA'', var_park_name = ''Grand Canyon National Park'',
           var_region_id = Some ''IMR'', var_region_name = Some ''Intermountain'',
           var_year = 2023, var_avg_monthly_visits = 200,
           var_std_dev_monthly_visits = 82, var_months_with_data = 3\<rparr>]"
proof -
  have "variability_out ((''GRCA'', ''Grand Canyon National Park'', Some ''IMR'',
       Some ''Intermountain'', 2023), 3, Some 600, Some 140000) =
     Inr \<lparr>var_park_code = ''GRCA'', var_park_name = ''Grand Canyon National Park'',
           var_region_id = Some ''IMR'', var_region_name = Some ''Intermountain'',
           var_year = 2023, var_avg_monthly_visits = 200,
           var_std_dev_monthly_visits = 82, var_months_with_data = 3\<rparr>"
    unfolding variability_out_value [of 3, simplified]
    unfolding sample_row_mean [simplified] sample_row_variance float_sqrt_example
    by simp
  then show ?thesis
    by (intro variability_single_row) (simp_all add: sample_variability_stmt)
qed

lemma steady_store_wf: "wf_store steady_store"
  by (simp add: wf_store_def steady_store_def steady_visits_def visit_row_def park_row_def
      mv_key_def)

lemma steady_monthly_totals:
  "monthly_totals steady_store ''BLRI'' 2023 =
     [2970003, 2970052, 2970008, 2969958, 2969982, 2970031, 2969940,
      2969977, 2969985, 2970028, 2969987]"
  by code_simp

lemma steady_variability_stmt:
  "variability_stmt steady_store 2023 None None None =
     [((''BLRI'', ''Blue Ridge Parkway'', None, None, 2023),
       11, Some 32669951, Some 97029608951133)]"
  by code_simp

lemma steady_row_mean:
  "py_round (float_div (float_or_0 (Some 32669951)) (float_of_int (int 11))) = 2969996"
  by code_simp

lemma steady_row_variance:
  "max (float_sub (float_div (float_or_0 (Some 97029608951133)) (float_of_int 11))
          (float_mul (float_div (float_or_0 (Some 32669951)) (float_of_int 11))
             (float_div (float_or_0 (Some 32669951)) (float_of_int 11)))) 0 =
   3969 / 4"
  by code_simp

lemma steady_variability:
  "park_visit_variability steady_store 2023 None None None 10 =
     Inr [\<lparr>var_park_code = ''BLRI'', var_park_name = ''Blue Ridge Parkway'',
           var_region_id = None, var_region_name = None,
           var_year = 2023, var_avg_monthly_visits = 2969996,
           var_std_dev_monthly_visits = 32, var_months_with_data = 11\<rparr>]"
proof -
  have "variability_out ((''BLRI'', ''Blue Ridge Parkway'', None, None, 2023),
       11, Some 32669951, Some 97029608951133) =
     Inr \<lparr>var_park_code = ''BLRI'', var_park_name = ''Blue Ridge Parkway'',
           var_region_id = None, var_region_name = None,
           var_year = 2023, var_avg_monthly_visits = 2969996,
           var_std_dev_monthly_visits = 32, var_months_with_data = 11\<rparr>"
    unfolding variability_out_value [of 11, simplified]
    unfolding steady_row_mean [simplified] steady_row_variance float_sqrt_steady
    by simp
  then show ?thesis
    by (intro variability_single_row) (simp_all add: steady_variability_stmt)
qed

lemma steady_exact_statistics:
  "py_round (population_std_dev
     [2970003, 2970052, 2970008, 2969958, 2969982, 2970031, 2969940,
      2969977, 2969985, 2970028, 2969987]) = 31"
proof -
  have "population_std_dev
     [2970003, 2970052, 2970008, 2969958, 2969982, 2970031, 2969940,
      2969977, 2969985, 2970028, 2969987] = sqrt (120062 / 121)"
    by (simp add: population_std_dev_def population_mean_def)
  then show ?thesis
    by (simp only: exact_steady)
qed

text \<open>
  Claim C2 as stated fails: the handler evaluates the recipe in Python floats, and the
  rounded result can differ from the rounded population standard deviation. For eleven
  monthly totals close to 2.97 million the population standard deviation is
  \<open>sqrt (120062 / 121)\<close>, below 31.5, and rounds to 31; in floats the variance comes out
  as 992.25, its root as 31.5, and the handler reports 32.
\<close>

theorem variability_differs_from_exact_statistics:
  "wf_store steady_store \<and>
   monthly_totals steady_store ''BLRI'' 2023 =
     [2970003, 2970052, 2970008, 2969958, 2969982, 2970031, 2969940,
      2969977, 2969985, 2970028, 2969987] \<and>
   py_round (population_std_dev
     [2970003, 2970052, 2970008, 2969958, 2969982, 2970031, 2969940,
      2969977, 2969985, 2970028, 2969987]) = 31 \<and>
   park_visit_variability steady_store 2023 None None None 10 =
     Inr [\<lparr>var_park_code = ''BLRI'', var_park_name = ''Blue Ridge Parkway'',
           var_region_id = None, var_region_name = None,
           var_year = 2023, var_avg_monthly_visits = 2969996,
           var_std_dev_monthly_visits = 32, var_months_with_data = 11\<rparr>]"
  using steady_store_wf steady_monthly_totals steady_exact_statistics steady_variability
  by blast

text \<open>
  Claim C2, amended. For a well-formed store, every record returned by
  \<open>park_visit_variability\<close> reports, for the monthly totals of its park in the year: their
  count as \<open>months_with_data\<close>, and, with every operation evaluated in Python floats
  (rounded to binary64), the rounded mean \<open>sum_v / n\<close> and the rounded standard deviation
  \<open>sqrt (max (sum_v2 / n - mean * mean) 0)\<close> with divisor \<open>n\<close>. While the sum of the
  totals is below \<open>2 ^ 52\<close> in absolute value, the reported mean is the exact mean
  rounded half to even. Monthly totals \<open>[100, 200, 300]\<close> give 3, 200 and 82. The
  handler does not fail once the statement returns a row.
\<close>

theorem variability_float_statistics:
  assumes wf: "wf_store db" and run: "park_visit_variability db y g pc q l = Inr out"
    and r: "r \<in> set out"
  shows "monthly_totals db (var_park_code r) y \<noteq> [] \<and>
         var_months_with_data r = int (length (monthly_totals db (var_park_code r) y)) \<and>
         var_avg_monthly_visits r = py_round (float_mean (monthly_totals db (var_park_code r) y)) \<and>
         var_std_dev_monthly_visits r =
           py_round (float_std_dev (monthly_totals db (var_park_code r) y)) \<and>
         (\<bar>sum_list (monthly_totals db (var_park_code r) y)\<bar> < 2 ^ 52 \<and>
          int (length (monthly_totals db (var_park_code r) y)) < 2 ^ 53 \<longrightarrow>
            var_avg_monthly_visits r =
              py_round (population_mean (monthly_totals db (var_park_code r) y))) \<and>
         (monthly_totals db (var_park_code r) y = [100, 200, 300] \<longrightarrow>
            var_months_with_data r = 3 \<and> var_avg_monthly_visits r = 200 \<and>
            var_std_dev_monthly_visits r = 82) \<and>
         (\<forall>l'. \<exists>res. park_visit_variability db y g pc q l' = Inr res)"
proof -
  note rec = variability_record [OF wf run r]
  have mean: "\<bar>sum_list (monthly_totals db (var_park_code r) y)\<bar> < 2 ^ 52 \<and>
          int (length (monthly_totals db (var_park_code r) y)) < 2 ^ 53 \<longrightarrow>
            var_avg_monthly_visits r =
              py_round (population_mean (monthly_totals db (var_park_code r) y))"
    using rec float_mean_round [of "monthly_totals db (var_park_code r) y"] by simp
  have ex: "monthly_totals db (var_park_code r) y = [100, 200, 300] \<longrightarrow>
            var_months_with_data r = 3 \<and> var_avg_monthly_visits r = 200 \<and>
            var_std_dev_monthly_visits r = 82"
  proof
    assume vs: "monthly_totals db (var_park_code r) y = [100, 200, 300]"
    from rec show "var_months_with_data r = 3 \<and> var_avg_monthly_visits r = 200 \<and>
            var_std_dev_monthly_visits r = 82"
      unfolding vs using example_statistics by simp
  qed
  from run have "variability_stmt db y (map_option upper g) (map_option upper pc) q \<noteq> []"
    by (auto simp: park_visit_variability_def Let_def split: if_splits)
  then have "\<forall>l'. \<exists>res. park_visit_variability db y g pc q l' = Inr res"
    using variability_succeeds [OF wf] by blast
  with rec mean ex show ?thesis
    by blast
qed

theorem variability_float_statistics_witness:
  "wf_store sample_store \<and>
   park_visit_variability sample_store 2023 None None None 10 =
     Inr [\<lparr>var_park_code = ''GRCA'', var_park_name = ''Grand Canyon National Park'',
           var_region_id = Some ''IMR'', var_region_name = Some ''Intermountain'',
           var_year = 2023, var_avg_monthly_visits = 200,
           var_std_dev_monthly_visits = 82, var_months_with_data = 3\<rparr>] \<and>
   monthly_totals sample_store ''GRCA'' 2023 = [100, 200, 300] \<and>
   py_round (float_mean (monthly_totals sample_store ''GRCA'' 2023)) = 200 \<and>
   py_round (float_std_dev (monthly_totals sample_store ''GRCA'' 2023)) = 82 \<and>
   py_round (population_mean (monthly_totals sample_store ''GRCA'' 2023)) = 200"
proof -
  have mem: "\<lparr>var_park_code = ''GRCA'', var_park_name = ''Grand Canyon National Park'',
           var_region_id = Some ''IMR'', var_region_name = Some ''Intermountain'',
           var_year = 2023, var_avg_monthly_visits = 200,
           var_std_dev_monthly_visits = 82, var_months_with_data = 3\<rparr>
        \<in> set [\<lparr>var_park_code = ''GRCA'', var_park_name = ''Grand Canyon National Park'',
           var_region_id = Some ''IMR'', var_region_name = Some ''Intermountain'',
           var_year = 2023, var_avg_monthly_visits = 200,
           var_std_dev_monthly_visits = 82, var_months_with_data = 3\<rparr>]"
    by simp
  note t = variability_float_statistics [OF sample_store_wf sample_variability mem]
  from t have a: "py_round (float_mean (monthly_totals sample_store ''GRCA'' 2023)) = 200 \<and>
        py_round (float_std_dev (monthly_totals sample_store ''GRCA'' 2023)) = 82"
    by simp
  have "\<bar>sum_list (monthly_totals sample_store ''GRCA'' 2023)\<bar> < 2 ^ 52 \<and>
        int (length (monthly_totals sample_store ''GRCA'' 2023)) < 2 ^ 53"
    by (simp add: sample_monthly_totals)
  with t have b: "py_round (population_mean (monthly_totals sample_store ''GRCA'' 2023)) = 200"
    by simp
  from a b sample_store_wf sample_variability sample_monthly_totals show ?thesis
    by blast
qed

subsection \<open>Q5: the parks above the rounded mean of the scope\<close>

lemma overall_average_is_scope_mean:
  assumes wf: "wf_store db" and t: "py_sum (annual_totals db y rid) = Inr t"
  shows "py_round (int_truediv t (int (length (annual_totals db y rid)))) = scope_average db y rid"
proof -
  let ?rows = "filter (\<lambda>(m, p). mv_year m = y \<and> park_region_filter rid p) (visit_join_park db)"
  let ?ks = "remdups (map (\<lambda>(m, p). mv_park_code m) ?rows)"
  let ?F = "\<lambda>c. int_or_0 (annual_total_of db c y)"
  let ?scope = "scope_parks db y rid"
  have tot: "annual_totals db y rid = map (\<lambda>c. annual_total_of db c y) ?ks"
    by (rule annual_totals_eq [OF wf])
  have ks: "set ?ks = park_code ` set ?scope"
    using annual_totals_keys [OF wf, of y rid] by simp
  from scope_parks_distinct [OF wf, of y rid]
  have ds: "distinct ?scope" and inj: "inj_on park_code (set ?scope)"
    by (simp_all add: distinct_map)
  from py_sum_Inr [OF t] have "t = sum_list (map ?F ?ks)"
    by (simp add: tot comp_def)
  also have "\<dots> = sum ?F (set ?ks)"
    by (rule sum_list_distinct_conv_sum_set) simp
  also have "\<dots> = sum ?F (park_code ` set ?scope)"
    by (simp only: ks)
  also have "\<dots> = sum (?F \<circ> park_code) (set ?scope)"
    by (rule sum.reindex [OF inj])
  also have "\<dots> = sum_list (map (?F \<circ> park_code) ?scope)"
    by (rule sum_list_distinct_conv_sum_set [OF ds, symmetric])
  finally have t_eq: "t = sum_list (map (\<lambda>p. int_or_0 (annual_total_of db (park_code p) y)) ?scope)"
    by (simp add: comp_def)
  have "length (annual_totals db y rid) = length ?ks"
    by (simp add: tot)
  also have "\<dots> = card (set ?ks)"
    by (rule distinct_card [symmetric]) (rule distinct_remdups)
  also have "\<dots> = card (park_code ` set ?scope)"
    by (simp only: ks)
  also have "\<dots> = card (set ?scope)"
    by (rule card_image [OF inj])
  also have "\<dots> = length ?scope"
    by (rule distinct_card [OF ds])
  finally have len: "length (annual_totals db y rid) = length ?scope" .
  show ?thesis
    by (simp add: scope_average_def scope_totals_def len t_eq)
qed

lemma annual_totals_empty_iff:
  assumes wf: "wf_store db"
  shows "annual_totals db y rid = [] \<longleftrightarrow> scope_parks db y rid = []"
proof -
  let ?rows = "filter (\<lambda>(m, p). mv_year m = y \<and> park_region_filter rid p) (visit_join_park db)"
  let ?ks = "remdups (map (\<lambda>(m, p). mv_park_code m) ?rows)"
  have "annual_totals db y rid = [] \<longleftrightarrow> set ?ks = {}"
    unfolding annual_totals_eq [OF wf] by (simp del: set_remdups)
  also have "\<dots> \<longleftrightarrow> park_code ` set (scope_parks db y rid) = {}"
    using annual_totals_keys [OF wf, of y rid] by simp
  finally show ?thesis by simp
qed

lemma annual_totals_set:
  assumes wf: "wf_store db"
  shows "set (annual_totals db y rid) =
           (\<lambda>p. annual_total_of db (park_code p) y) ` set (scope_parks db y rid)"
proof -
  let ?rows = "filter (\<lambda>(m, p). mv_year m = y \<and> park_region_filter rid p) (visit_join_park db)"
  let ?ks = "remdups (map (\<lambda>(m, p). mv_park_code m) ?rows)"
  have "set (annual_totals db y rid) = (\<lambda>c. annual_total_of db c y) ` set ?ks"
    unfolding annual_totals_eq [OF wf] by simp
  also have "set ?ks = park_code ` set (scope_parks db y rid)"
    using annual_totals_keys [OF wf, of y rid] by simp
  finally show ?thesis
    by (simp add: image_image)
qed

lemma above_groups_char:
  assumes wf: "wf_store db"
  shows "(k, t) \<in> set (sum_groups park_region_year_key total_of
            (filter (\<lambda>(p, m, r). mv_year m = y \<and> region_filter rid r \<and> park_filter None None p)
               (park_visit_region db))) \<longleftrightarrow>
         (\<exists>p0 \<in> set (scope_parks db y rid). \<exists>rg0.
             outer_join_region db p0 = [rg0] \<and>
             k = (park_code p0, park_name p0, map_option region_id rg0,
                  map_option region_name rg0, y) \<and>
             t = annual_total_of db (park_code p0) y)"
    (is "?L \<longleftrightarrow> ?R")
proof
  let ?F = "\<lambda>(p, m, r). mv_year m = y \<and> region_filter rid r \<and> park_filter None None p"
  let ?joined = "filter ?F (park_visit_region db)"
  assume ?L
  then obtain x0 where x0: "x0 \<in> set ?joined" and k: "k = park_region_year_key x0"
    and t: "t = sql_sum (map total_of (filter (\<lambda>x. park_region_year_key x = k) ?joined))"
    by (auto simp: in_sum_groups)
  obtain p0 m0 rg0 where pmr: "x0 = (p0, m0, rg0)" by (cases x0)
  from x0 have mem: "p0 \<in> set (park db)" "m0 \<in> set (monthly_visit db)"
      "mv_park_code m0 = park_code p0" "rg0 \<in> set (outer_join_region db p0)"
    and f: "mv_year m0 = y" "region_filter rid rg0"
    by (auto simp: pmr in_park_visit_region)
  from outer_join_region_single [OF wf, of p0] mem(4) have rg: "outer_join_region db p0 = [rg0]"
    by auto
  from mem f have "m0 \<in> set (park_rows db (park_code p0) y)"
    by (simp add: park_rows_def)
  then have ne: "park_rows db (park_code p0) y \<noteq> []"
    by auto
  from region_filter_iff [OF wf mem(1) mem(4), of rid] f(2) have "park_region_filter rid p0"
    by simp
  with mem(1) ne have sc: "p0 \<in> set (scope_parks db y rid)"
    by (simp add: scope_parks_alt)
  from x0 have g: "filter (\<lambda>x. park_region_year_key x = k) ?joined =
      map (\<lambda>m. (p0, m, rg0)) (park_rows db (park_code p0) y)"
    using group_of_park [OF wf, of p0 m0 rg0 y rid None None] by (simp add: pmr k)
  have t': "t = annual_total_of db (park_code p0) y"
    unfolding t g by (simp add: annual_total_of_def comp_def total_of_def)
  from k f have "k = (park_code p0, park_name p0, map_option region_id rg0,
                  map_option region_name rg0, y)"
    by (simp add: pmr park_region_year_key_def)
  with sc rg t' show ?R
    by blast
next
  let ?F = "\<lambda>(p, m, r). mv_year m = y \<and> region_filter rid r \<and> park_filter None None p"
  let ?joined = "filter ?F (park_visit_region db)"
  assume ?R
  then obtain p0 rg0 where sc: "p0 \<in> set (scope_parks db y rid)"
    and rg: "outer_join_region db p0 = [rg0]"
    and k: "k = (park_code p0, park_name p0, map_option region_id rg0,
                  map_option region_name rg0, y)"
    and t: "t = annual_total_of db (park_code p0) y"
    by blast
  from sc have p0: "p0 \<in> set (park db)" and prg: "park_region_filter rid p0"
    and ne: "park_rows db (park_code p0) y \<noteq> []"
    by (simp_all add: scope_parks_alt)
  from ne obtain m0 where "m0 \<in> set (park_rows db (park_code p0) y)"
    by (cases "park_rows db (park_code p0) y") auto
  then have m0: "m0 \<in> set (monthly_visit db)" "mv_park_code m0 = park_code p0" "mv_year m0 = y"
    by (simp_all add: park_rows_def)
  from rg have rgm: "rg0 \<in> set (outer_join_region db p0)"
    by simp
  from region_filter_iff [OF wf p0 rgm, of rid] prg have rf: "region_filter rid rg0"
    by simp
  from p0 m0 rgm rf have x0: "(p0, m0, rg0) \<in> set ?joined"
    by (simp add: in_park_visit_region park_filter_def)
  have key: "park_region_year_key (p0, m0, rg0) = k"
    by (simp add: k park_region_year_key_def m0)
  from x0 have g: "filter (\<lambda>x. park_region_year_key x = k) ?joined =
      map (\<lambda>m. (p0, m, rg0)) (park_rows db (park_code p0) y)"
    using group_of_park [OF wf, of p0 m0 rg0 y rid None None] by (simp add: key)
  have "t = sql_sum (map total_of (filter (\<lambda>x. park_region_year_key x = k) ?joined))"
    unfolding t g by (simp add: annual_total_of_def comp_def total_of_def)
  moreover from x0 key have "k \<in> park_region_year_key ` set ?joined"
    by (metis imageI)
  ultimately show ?L
    by (simp only: in_sum_groups simp_thms)
qed

lemma above_groups_distinct:
  assumes wf: "wf_store db"
  shows "distinct (map (\<lambda>r. fst (fst r)) (sum_groups park_region_year_key total_of
            (filter (\<lambda>(p, m, r). mv_year m = y \<and> region_filter rid r \<and> park_filter None None p)
               (park_visit_region db))))"
proof -
  let ?groups = "sum_groups park_region_year_key total_of
            (filter (\<lambda>(p, m, r). mv_year m = y \<and> region_filter rid r \<and> park_filter None None p)
               (park_visit_region db))"
  from wf have dc: "distinct (map park_code (park db))"
    by (simp add: wf_store_def)
  have dk: "distinct (map fst ?groups)"
    by (simp add: keys_sum_groups)
  have inj: "inj_on fst (set (map fst ?groups))"
  proof (rule inj_onI)
    fix k1 k2
    assume "k1 \<in> set (map fst ?groups)" "k2 \<in> set (map fst ?groups)" and eq: "fst k1 = fst k2"
    then obtain t1 t2 where "(k1, t1) \<in> set ?groups" "(k2, t2) \<in> set ?groups"
      by auto
    then obtain p1 rg1 p2 rg2 where
      1: "p1 \<in> set (scope_parks db y rid)" "outer_join_region db p1 = [rg1]"
         "k1 = (park_code p1, park_name p1, map_option region_id rg1, map_option region_name rg1, y)"
      and 2: "p2 \<in> set (scope_parks db y rid)" "outer_join_region db p2 = [rg2]"
         "k2 = (park_code p2, park_name p2, map_option region_id rg2, map_option region_name rg2, y)"
      unfolding above_groups_char [OF wf] by blast
    from 1 2 eq have "park_code p1 = park_code p2" "p1 \<in> set (park db)" "p2 \<in> set (park db)"
      by (simp_all add: scope_parks_alt)
    with dc have "p1 = p2"
      by (meson distinct_map inj_on_def)
    with 1 2 show "k1 = k2"
      by simp
  qed
  from dk inj have "distinct (map fst (map fst ?groups))"
    by (simp only: distinct_map simp_thms)
  then show ?thesis
    by (simp add: comp_def)
qed

lemma above_average_out_fields:
  "paa_park_code (above_average_out avg (k, t)) = fst k \<and>
   paa_annual_total_visits (above_average_out avg (k, t)) = int_or_0 t \<and>
   paa_system_average_visits (above_average_out avg (k, t)) = avg \<and>
   paa_difference_from_average (above_average_out avg (k, t)) = int_or_0 t - avg \<and>
   paa_percent_above_average (above_average_out avg (k, t)) = pct_above (int_or_0 t) avg"
  by (cases k) (auto simp: above_average_out_def Let_def)

lemma above_average_result:
  assumes wf: "wf_store db" and run: "parks_above_system_average db y g None None = Inr out"
  shows "out = map (above_average_out (scope_average db y (map_option upper g)))
           (above_average_stmt db y (map_option upper g) None None
              (scope_average db y (map_option upper g)))"
proof -
  let ?rid = "map_option upper g"
  from run obtain t where t: "py_sum (annual_totals db y ?rid) = Inr t"
    and out: "out = map (above_average_out (py_round (int_truediv t (int (length (annual_totals db y ?rid))))))
       (above_average_stmt db y ?rid None None
          (py_round (int_truediv t (int (length (annual_totals db y ?rid))))))"
    by (auto simp: parks_above_system_average_def Let_def split: if_splits sum.splits)
  from out show ?thesis
    by (simp only: overall_average_is_scope_mean [OF wf t])
qed

lemma distinct_map_order_by_desc:
  "distinct (map f (order_by_desc k xs)) = distinct (map f xs)"
  by (simp add: distinct_map set_order_by_desc distinct_order_by_desc)

lemma above_average_succeeds:
  assumes wf: "wf_store db"
    and ne: "scope_parks db y (map_option upper g) \<noteq> []"
    and nn: "\<forall>p \<in> set (scope_parks db y (map_option upper g)).
               annual_total_of db (park_code p) y \<noteq> None"
  shows "\<exists>out. parks_above_system_average db y g pc q = Inr out"
proof -
  let ?totals = "annual_totals db y (map_option upper g)"
  from ne have t1: "?totals \<noteq> []"
    by (simp add: annual_totals_empty_iff [OF wf])
  from nn have "None \<notin> set ?totals"
    unfolding annual_totals_set [OF wf] by force
  from py_sum_total [OF this] obtain t where "py_sum ?totals = Inr t"
    by blast
  with t1 show ?thesis
    by (simp add: parks_above_system_average_def Let_def)
qed

lemma above_average_out_code: "paa_park_code (above_average_out avg x) = fst (fst x)"
  by (cases x) (simp add: above_average_out_fields)

lemma above_average_records:
  assumes wf: "wf_store db" and run: "parks_above_system_average db y g None None = Inr out"
  shows "set (map paa_park_code out) =
           park_code ` {p \<in> set (scope_parks db y (map_option upper g)).
              sql_gt (annual_total_of db (park_code p) y)
                (scope_average db y (map_option upper g))} \<and>
         distinct (map paa_park_code out) \<and>
         (\<forall>r \<in> set out.
            paa_annual_total_visits r = int_or_0 (annual_total_of db (paa_park_code r) y) \<and>
            paa_system_average_visits r = scope_average db y (map_option upper g) \<and>
            paa_difference_from_average r =
              paa_annual_total_visits r - scope_average db y (map_option upper g) \<and>
            paa_percent_above_average r =
              pct_above (paa_annual_total_visits r) (scope_average db y (map_option upper g)))"
proof -
  let ?rid = "map_option upper g"
  let ?avg = "scope_average db y ?rid"
  let ?groups = "sum_groups park_region_year_key total_of
      (filter (\<lambda>(p, m, r). mv_year m = y \<and> region_filter ?rid r \<and> park_filter None None p)
         (park_visit_region db))"
  let ?kept = "filter (\<lambda>(k, annual_total). sql_gt annual_total ?avg) ?groups"
  let ?rows = "order_by_desc snd ?kept"
  have out: "out = map (above_average_out ?avg) ?rows"
    using above_average_result [OF wf run] by (simp add: above_average_stmt_def)
  have codes: "map paa_park_code out = map (\<lambda>r. fst (fst r)) ?rows"
    unfolding out by (simp add: above_average_out_code)
  have "distinct (map (\<lambda>r. fst (fst r)) ?kept)"
    by (rule distinct_map_filter) (rule above_groups_distinct [OF wf])
  then have d: "distinct (map paa_park_code out)"
    unfolding codes by (simp only: distinct_map_order_by_desc)
  have s: "set (map paa_park_code out) =
      park_code ` {p \<in> set (scope_parks db y ?rid). sql_gt (annual_total_of db (park_code p) y) ?avg}"
  proof (intro set_eqI iffI)
    fix c assume "c \<in> set (map paa_park_code out)"
    then obtain k t where kt: "(k, t) \<in> set ?groups" "sql_gt t ?avg" "c = fst k"
      unfolding codes by (auto simp: set_order_by_desc)
    from kt(1) obtain p0 where "p0 \<in> set (scope_parks db y ?rid)" "fst k = park_code p0"
        "t = annual_total_of db (park_code p0) y"
      unfolding above_groups_char [OF wf] by auto
    with kt show "c \<in> park_code ` {p \<in> set (scope_parks db y ?rid).
        sql_gt (annual_total_of db (park_code p) y) ?avg}"
      by blast
  next
    fix c assume "c \<in> park_code ` {p \<in> set (scope_parks db y ?rid).
        sql_gt (annual_total_of db (park_code p) y) ?avg}"
    then obtain p0 where p0: "p0 \<in> set (scope_parks db y ?rid)"
        "sql_gt (annual_total_of db (park_code p0) y) ?avg" "c = park_code p0"
      by auto
    from outer_join_region_single [OF wf, of p0] obtain rg0 where "outer_join_region db p0 = [rg0]"
      by blast
    with p0(1) have "((park_code p0, park_name p0, map_option region_id rg0,
        map_option region_name rg0, y), annual_total_of db (park_code p0) y) \<in> set ?groups"
      unfolding above_groups_char [OF wf] by blast
    with p0(2) have "((park_code p0, park_name p0, map_option region_id rg0,
        map_option region_name rg0, y), annual_total_of db (park_code p0) y) \<in> set ?rows"
      by (simp add: set_order_by_desc)
    then have "fst (fst ((park_code p0, park_name p0, map_option region_id rg0,
        map_option region_name rg0, y), annual_total_of db (park_code p0) y))
        \<in> (\<lambda>r. fst (fst r)) ` set ?rows"
      by (rule imageI)
    then show "c \<in> set (map paa_park_code out)"
      unfolding codes by (simp add: p0(3))
  qed
  have f: "\<forall>r \<in> set out.
      paa_annual_total_visits r = int_or_0 (annual_total_of db (paa_park_code r) y) \<and>
      paa_system_average_visits r = ?avg \<and>
      paa_difference_from_average r = paa_annual_total_visits r - ?avg \<and>
      paa_percent_above_average r = pct_above (paa_annual_total_visits r) ?avg"
  proof
    fix r assume "r \<in> set out"
    then obtain k t where kt: "(k, t) \<in> set ?groups" and r: "r = above_average_out ?avg (k, t)"
      unfolding out by (auto simp: set_order_by_desc)
    from kt obtain p0 where "p0 \<in> set (scope_parks db y ?rid)" "fst k = park_code p0"
        "t = annual_total_of db (park_code p0) y"
      unfolding above_groups_char [OF wf] by auto
    with above_average_out_fields [of ?avg k t]
    show "paa_annual_total_visits r = int_or_0 (annual_total_of db (paa_park_code r) y) \<and>
      paa_system_average_visits r = ?avg \<and>
      paa_difference_from_average r = paa_annual_total_visits r - ?avg \<and>
      paa_percent_above_average r = pct_above (paa_annual_total_visits r) ?avg"
      by (simp add: r)
  qed
  from s d f show ?thesis
    by blast
qed

lemma above_average_scope_empty:
  assumes wf: "wf_store db" and e: "scope_parks db y (map_option upper g) = []"
  shows "parks_above_system_average db y g pc q =
           Inl (HTTPException 404 ''No data for that year/filters'')"
proof -
  from e have "annual_totals db y (map_option upper g) = []"
    by (simp add: annual_totals_empty_iff [OF wf])
  then show ?thesis
    by (simp add: parks_above_system_average_def Let_def)
qed

lemma scope_average_round:
  assumes ne: "scope_totals db y rid \<noteq> []"
    and s: "\<bar>sum_list (scope_totals db y rid)\<bar> < 2 ^ 52"
    and n: "int (length (scope_totals db y rid)) < 2 ^ 53"
  shows "scope_average db y rid = py_round (scope_mean db y rid)"
proof -
  from ne have b: "int (length (scope_totals db y rid)) \<noteq> 0"
    by simp
  from n have b53: "\<bar>int (length (scope_totals db y rid))\<bar> < 2 ^ 53"
    by simp
  from int_truediv_round [OF b s b53] show ?thesis
    by (simp add: scope_average_def scope_mean_def)
qed

lemma sample_above_average_2019:
  "parks_above_system_average sample_store 2019 None None None = Inr []"
  by code_simp

lemma sample_scope_2019:
  "map park_code (scope_parks sample_store 2019 None) = [''GRCA'', ''ZION'', ''YOSE'']"
  by code_simp

lemma sample_scope_totals_2019: "scope_totals sample_store 2019 None = [1, 2, 2]"
  by code_simp

lemma sample_scope_mean_2019: "scope_mean sample_store 2019 None = 5 / 3"
  by (simp add: scope_mean_def sample_scope_totals_2019)

lemma sample_total_zion_2019: "annual_total_of sample_store ''ZION'' 2019 = Some 2"
  by code_simp

lemma sample_above_average_2020:
  "parks_above_system_average sample_store 2020 None None None =
     Inr [\<lparr>paa_park_code = ''YOSE'', paa_park_name = ''Yosemite National Park'',
           paa_region_id = Some ''PWR'', paa_region_name = Some ''Pacific West'',
           paa_year = 2020, paa_annual_total_visits = 300, paa_system_average_visits = 200,
           paa_difference_from_average = 100, paa_percent_above_average = 50\<rparr>]"
  by code_simp

lemma sample_scope_totals_2020: "scope_totals sample_store 2020 None = [100, 200, 300]"
  by code_simp

lemma sample_scope_mean_2020: "scope_mean sample_store 2020 None = 200"
  by (simp add: scope_mean_def sample_scope_totals_2020)

lemma example_average: "py_round (int_truediv (sum_list [100, 200, 300]) (int (length [100, 200, 300::int]))) = 200"
  by code_simp

lemma example_percent: "py_round (float_mul (int_truediv (300 - 200) 200) 100) = 50"
  by code_simp

lemma percent_float_example:
  "pct_above 315 200 = 57 \<and> py_round (real_of_int (315 - 200) / real_of_int 200 * 100) = 58"
  by code_simp

text \<open>
  Claim C3 as stated fails: the handler compares the annual totals with the mean rounded
  to an integer, not with the mean itself. With annual totals 1, 2 and 2 the mean is
  \<open>5 / 3\<close>, which rounds to 2; the park with total 2 exceeds the mean and is not returned.
\<close>

theorem above_average_excludes_park_above_mean:
  "map park_code (scope_parks sample_store 2019 None) = [''GRCA'', ''ZION'', ''YOSE''] \<and>
   scope_totals sample_store 2019 None = [1, 2, 2] \<and>
   scope_mean sample_store 2019 None = 5 / 3 \<and>
   annual_total_of sample_store ''ZION'' 2019 = Some 2 \<and>
   (5 / 3 :: real) < 2 \<and>
   parks_above_system_average sample_store 2019 None None None = Inr []"
  using sample_scope_2019 sample_scope_totals_2019 sample_scope_mean_2019 sample_total_zion_2019
    sample_above_average_2019
  by simp

text \<open>
  Claim C3, amended. For a well-formed store, a year and an optional region filter (no park
  filter), let the scope be the parks of the region filter with a row in the year and let
  the average be the unweighted mean of their annual totals as Python evaluates
  \<^verbatim>\<open>int(round(sum(totals) / len(totals)))\<close>: rounded to an integer (while the sum of the
  totals is below \<open>2 ^ 52\<close> in absolute value, the exact mean rounded half to even). A call with an empty
  scope fails with status 404; a call with a non-empty scope whose annual totals are all
  known succeeds. The returned parks are exactly the parks of the scope whose annual total
  strictly exceeds the rounded average, each once; each record carries the park's annual
  total, the rounded average, their difference, and as percent
  \<^verbatim>\<open>int(round((annual_total - average) / average * 100))\<close> of the rounded average, evaluated
  in Python floats, which is 0 when that average is not positive. For annual totals 100,
  200 and 300 the average is 200, only the park with total 300 is returned, and its percent
  is 50.
\<close>

theorem above_average_rounded_mean:
  assumes wf: "wf_store db"
  shows "(scope_parks db y (map_option upper g) = [] \<longrightarrow>
            parks_above_system_average db y g None None =
              Inl (HTTPException 404 ''No data for that year/filters'')) \<and>
         (scope_parks db y (map_option upper g) \<noteq> [] \<and>
          (\<forall>p \<in> set (scope_parks db y (map_option upper g)).
              annual_total_of db (park_code p) y \<noteq> None) \<longrightarrow>
            (\<exists>out. parks_above_system_average db y g None None = Inr out)) \<and>
         (\<forall>out. parks_above_system_average db y g None None = Inr out \<longrightarrow>
            set (map paa_park_code out) =
              park_code ` {p \<in> set (scope_parks db y (map_option upper g)).
                 sql_gt (annual_total_of db (park_code p) y)
                   (scope_average db y (map_option upper g))} \<and>
            distinct (map paa_park_code out) \<and>
            (\<forall>r \<in> set out.
               paa_annual_total_visits r = int_or_0 (annual_total_of db (paa_park_code r) y) \<and>
               paa_system_average_visits r = scope_average db y (map_option upper g) \<and>
               paa_difference_from_average r =
                 paa_annual_total_visits r - scope_average db y (map_option upper g) \<and>
               paa_percent_above_average r =
                 (if 0 < scope_average db y (map_option upper g)
                  then py_round (float_mul
                         (int_truediv
                            (paa_annual_total_visits r - scope_average db y (map_option upper g))
                            (scope_average db y (map_option upper g))) 100)
                  else 0))) \<and>
         (scope_totals db y (map_option upper g) \<noteq> [] \<and>
          \<bar>sum_list (scope_totals db y (map_option upper g))\<bar> < 2 ^ 52 \<and>
          int (length (scope_totals db y (map_option upper g))) < 2 ^ 53 \<longrightarrow>
            scope_average db y (map_option upper g) =
              py_round (scope_mean db y (map_option upper g))) \<and>
         (scope_totals db y (map_option upper g) = [100, 200, 300] \<longrightarrow>
            scope_average db y (map_option upper g) = 200) \<and>
         py_round (float_mul (int_truediv (300 - 200) 200) 100) = 50"
proof -
  have c1: "scope_parks db y (map_option upper g) = [] \<longrightarrow>
            parks_above_system_average db y g None None =
              Inl (HTTPException 404 ''No data for that year/filters'')"
    using above_average_scope_empty [OF wf] by blast
  have c2: "scope_parks db y (map_option upper g) \<noteq> [] \<and>
          (\<forall>p \<in> set (scope_parks db y (map_option upper g)).
              annual_total_of db (park_code p) y \<noteq> None) \<longrightarrow>
            (\<exists>out. parks_above_system_average db y g None None = Inr out)"
    using above_average_succeeds [OF wf] by blast
  have c3: "\<forall>out. parks_above_system_average db y g None None = Inr out \<longrightarrow>
            set (map paa_park_code out) =
              park_code ` {p \<in> set (scope_parks db y (map_option upper g)).
                 sql_gt (annual_total_of db (park_code p) y)
                   (scope_average db y (map_option upper g))} \<and>
            distinct (map paa_park_code out) \<and>
            (\<forall>r \<in> set out.
               paa_annual_total_visits r = int_or_0 (annual_total_of db (paa_park_code r) y) \<and>
               paa_system_average_visits r = scope_average db y (map_option upper g) \<and>
               paa_difference_from_average r =
                 paa_annual_total_visits r - scope_average db y (map_option upper g) \<and>
               paa_percent_above_average r =
                 (if 0 < scope_average db y (map_option upper g)
                  then py_round (float_mul
                         (int_truediv
                            (paa_annual_total_visits r - scope_average db y (map_option upper g))
                            (scope_average db y (map_option upper g))) 100)
                  else 0))"
  proof (intro allI impI)
    fix out assume run: "parks_above_system_average db y g None None = Inr out"
    from above_average_records [OF wf run]
    show "set (map paa_park_code out) =
              park_code ` {p \<in> set (scope_parks db y (map_option upper g)).
                 sql_gt (annual_total_of db (park_code p) y)
                   (scope_average db y (map_option upper g))} \<and>
            distinct (map paa_park_code out) \<and>
            (\<forall>r \<in> set out.
               paa_annual_total_visits r = int_or_0 (annual_total_of db (paa_park_code r) y) \<and>
               paa_system_average_visits r = scope_average db y (map_option upper g) \<and>
               paa_difference_from_average r =
                 paa_annual_total_visits r - scope_average db y (map_option upper g) \<and>
               paa_percent_above_average r =
                 (if 0 < scope_average db y (map_option upper g)
                  then py_round (float_mul
                         (int_truediv
                            (paa_annual_total_visits r - scope_average db y (map_option upper g))
                            (scope_average db y (map_option upper g))) 100)
                  else 0))"
      by (simp add: pct_above_def)
  qed
  have c4: "scope_totals db y (map_option upper g) = [100, 200, 300] \<longrightarrow>
            scope_average db y (map_option upper g) = 200"
    using example_average by (simp add: scope_average_def)
  have c5: "scope_totals db y (map_option upper g) \<noteq> [] \<and>
          \<bar>sum_list (scope_totals db y (map_option upper g))\<bar> < 2 ^ 52 \<and>
          int (length (scope_totals db y (map_option upper g))) < 2 ^ 53 \<longrightarrow>
            scope_average db y (map_option upper g) =
              py_round (scope_mean db y (map_option upper g))"
    using scope_average_round by blast
  from c1 c2 c3 c5 c4 example_percent show ?thesis
    by blast
qed

theorem above_average_rounded_mean_witness:
  "wf_store sample_store \<and>
   scope_totals sample_store 2020 None = [100, 200, 300] \<and>
   scope_mean sample_store 2020 None = 200 \<and>
   scope_average sample_store 2020 None = 200 \<and>
   parks_above_system_average sample_store 2020 None None None =
     Inr [\<lparr>paa_park_code = ''YOSE'', paa_park_name = ''Yosemite National Park'',
           paa_region_id = Some ''PWR'', paa_region_name = Some ''Pacific West'',
           paa_year = 2020, paa_annual_total_visits = 300, paa_system_average_visits = 200,
           paa_difference_from_average = 100, paa_percent_above_average = 50\<rparr>] \<and>
   park_code ` {p \<in> set (scope_parks sample_store 2020 None).
      sql_gt (annual_total_of sample_store (park_code p) 2020)
        (scope_average sample_store 2020 None)} = {''YOSE''}"
proof -
  note t = above_average_rounded_mean [OF sample_store_wf, of 2020 None, unfolded option.map]
  from t sample_scope_totals_2020 have a: "scope_average sample_store 2020 None = 200"
    by blast
  from t sample_above_average_2020 have "set (map paa_park_code [\<lparr>paa_park_code = ''YOSE'', paa_park_name = ''Yosemite National Park'',
           paa_region_id = Some ''PWR'', paa_region_name = Some ''Pacific West'',
           paa_year = 2020, paa_annual_total_visits = 300, paa_system_average_visits = 200,
           paa_difference_from_average = 100, paa_percent_above_average = 50\<rparr>]) =
      park_code ` {p \<in> set (scope_parks sample_store 2020 None).
         sql_gt (annual_total_of sample_store (park_code p) 2020)
           (scope_average sample_store 2020 None)}"
    by blast
  then have s: "park_code ` {p \<in> set (scope_parks sample_store 2020 None).
         sql_gt (annual_total_of sample_store (park_code p) 2020)
           (scope_average sample_store 2020 None)} = {''YOSE''}"
    by simp
  from sample_store_wf sample_scope_totals_2020 sample_scope_mean_2020 sample_above_average_2020
    a s
  show ?thesis
    by blast
qed

end
